theory Spec2Isabelle
  imports Complex_Main "HOL-Library.Multiset"
begin

section \<open>The adaptive-binning brightness model of \<^verbatim>\<open>model.py\<close>\<close>

text \<open>
  Conventions of the embedding.
  \<^item> Python's unbounded \<^verbatim>\<open>int\<close> is \<^typ>\<open>int\<close>; list lengths and positions are
    \<^typ>\<open>nat\<close>, converted with \<^term>\<open>int\<close> where the source compares them with integers.
  \<^item> Python's \<^verbatim>\<open>float\<close> is idealised as \<^typ>\<open>real\<close>: arithmetic is exact, there is
    no rounding, no infinity and no NaN, and \<^verbatim>\<open>float(n)\<close> of an integer is \<open>real_of_int n\<close>.
    Every statement below about sums and products of weights is a statement about this
    exact arithmetic.
  \<^item> Exceptions are values: a function that can raise returns \<open>py_error + 'a\<close>, with
    \<open>Inl\<close> the exception. Division and list indexing are the checked operations
    \<open>py_truediv\<close> and \<open>py_getitem\<close>.
  \<^item> Objects mutated in place are passed in and returned updated.
  \<^item> \<^verbatim>\<open>time.localtime(t).tm_hour\<close> depends on the time zone of the host; it is the
    parameter \<open>lh\<close> (local hour of a Unix timestamp) of every function that needs it.
  \<^item> The \<^verbatim>\<open>print\<close> calls of the source only log and are left out.
\<close>

subsection \<open>Exceptions, checked division and indexing\<close>

datatype py_error = ValueError | IndexError | ZeroDivisionError | OverflowError | OSError

definition bind_err :: "'e + 'a \<Rightarrow> ('a \<Rightarrow> 'e + 'b) \<Rightarrow> 'e + 'b" where
  "bind_err r f = (case r of Inr v \<Rightarrow> f v | Inl exn \<Rightarrow> Inl exn)"

definition py_truediv :: "real \<Rightarrow> real \<Rightarrow> py_error + real" where
  "py_truediv a b = (if b = 0 then Inl ZeroDivisionError else Inr (a / b))"

text \<open>\<^verbatim>\<open>xs[i]\<close>: a negative index counts from the end; out of range raises.\<close>

definition py_getitem :: "'a list \<Rightarrow> int \<Rightarrow> py_error + 'a" where
  "py_getitem xs i =
     (if 0 \<le> i \<and> i < int (length xs) then Inr (xs ! nat i)
      else if - int (length xs) \<le> i \<and> i < 0 then Inr (xs ! nat (int (length xs) + i))
      else Inl IndexError)"

subsection \<open>Data classes\<close>

record DataPoint =
  timestamp :: int
  ambient_light :: int
  screen_brightness :: int
  is_manual_adjustment :: bool

record TimeFeatures =
  hour :: int
  is_day :: bool

definition from_timestamp :: "(int \<Rightarrow> int) \<Rightarrow> int \<Rightarrow> TimeFeatures" where
  "from_timestamp lh t = \<lparr>hour = lh t, is_day = (6 \<le> lh t \<and> lh t < 18)\<rparr>"

text \<open>The field \<^verbatim>\<open>timestamp\<close> of \<^verbatim>\<open>WeightedDataPoint\<close> is \<open>point_timestamp\<close> here,
  since \<open>timestamp\<close> is the field of \<open>DataPoint\<close>.\<close>

record WeightedDataPoint =
  brightness :: int
  weight :: real
  point_timestamp :: int

subsection \<open>\<^verbatim>\<open>AdaptiveBin\<close>\<close>

record AdaptiveBin =
  min_value :: int
  max_value :: int
  points :: "WeightedDataPoint list"
  total_weight :: real
  max_points :: int

definition AdaptiveBin_init :: "int \<Rightarrow> int \<Rightarrow> int \<Rightarrow> AdaptiveBin" where
  "AdaptiveBin_init lo hi cap =
     \<lparr>min_value = lo, max_value = hi, points = [], total_weight = 0, max_points = cap\<rparr>"

text \<open>The scan of \<^verbatim>\<open>update\<close> for the smallest weight: \<open>(min_weight, min_weight_idx)\<close> is
  the loop state, \<open>i\<close> the position of the head of the remaining list.\<close>

fun min_weight_loop :: "WeightedDataPoint list \<Rightarrow> nat \<Rightarrow> real \<times> nat \<Rightarrow> real \<times> nat" where
  "min_weight_loop [] i acc = acc"
| "min_weight_loop (p # ps) i (mw, mi) =
     (if weight p < mw then min_weight_loop ps (Suc i) (weight p, i)
      else min_weight_loop ps (Suc i) (mw, mi))"

definition min_weight_idx :: "WeightedDataPoint list \<Rightarrow> nat" where
  "min_weight_idx ps = snd (min_weight_loop ps 0 (weight (ps ! 0), 0))"

text \<open>\<^verbatim>\<open>xs.pop(i)\<close> for an index in range: the list without position \<open>i\<close>.\<close>

definition pop :: "'a list \<Rightarrow> nat \<Rightarrow> 'a list" where
  "pop xs i = take i xs @ drop (Suc i) xs"

definition update :: "AdaptiveBin \<Rightarrow> int \<Rightarrow> real \<Rightarrow> int \<Rightarrow> AdaptiveBin" where
  "update b br w ts =
     (let ps = points b @ [\<lparr>brightness = br, weight = w, point_timestamp = ts\<rparr>];
          tw = total_weight b + w
      in if int (length ps) > max_points b
         then let idx = min_weight_idx ps
              in b\<lparr>points := pop ps idx, total_weight := tw - weight (ps ! idx)\<rparr>
         else b\<lparr>points := ps, total_weight := tw\<rparr>)"

definition get_weighted_average :: "AdaptiveBin \<Rightarrow> py_error + real option" where
  "get_weighted_average b =
     (if points b = [] \<or> total_weight b = 0 then Inr None
      else bind_err
             (py_truediv (sum_list (map (\<lambda>p. real_of_int (brightness p) * weight p) (points b)))
                         (total_weight b))
             (\<lambda>v. Inr (Some v)))"

fun cleanup_loop ::
  "WeightedDataPoint list \<Rightarrow> int \<Rightarrow> int \<Rightarrow> WeightedDataPoint list \<times> real
     \<Rightarrow> WeightedDataPoint list \<times> real" where
  "cleanup_loop [] now ma acc = acc"
| "cleanup_loop (p # ps) now ma (new_points, new_total_weight) =
     (if now - point_timestamp p \<le> ma
      then cleanup_loop ps now ma (new_points @ [p], new_total_weight + weight p)
      else cleanup_loop ps now ma (new_points, new_total_weight))"

definition bin_cleanup :: "AdaptiveBin \<Rightarrow> int \<Rightarrow> int \<Rightarrow> AdaptiveBin" where
  "bin_cleanup b current_timestamp ma =
     (let (new_points, new_total_weight) = cleanup_loop (points b) current_timestamp ma ([], 0)
      in b\<lparr>points := new_points, total_weight := new_total_weight\<rparr>)"

subsection \<open>\<^verbatim>\<open>EnhancedBrightnessModel\<close>\<close>

text \<open>\<open>last_predictions\<close> is the \<^verbatim>\<open>deque(maxlen=3)\<close>, oldest entry first.\<close>

record EnhancedBrightnessModel =
  ambient_bins :: "AdaptiveBin list"
  time_weight :: real
  recency_weight :: real
  activity_weight :: real
  last_predictions :: "real list"
  max_age_seconds :: int

text \<open>\<^verbatim>\<open>__init__\<close>: \<^verbatim>\<open>range(bin_count)\<close> is \<open>[0..bin_count - 1]\<close>, \<^verbatim>\<open>//\<close> is \<open>div\<close>
  (both round towards minus infinity), and every bin gets the default capacity 50.\<close>

definition EnhancedBrightnessModel_init ::
  "int \<Rightarrow> int \<Rightarrow> int \<Rightarrow> real \<Rightarrow> real \<Rightarrow> real \<Rightarrow> py_error + EnhancedBrightnessModel" where
  "EnhancedBrightnessModel_init min_ambient max_ambient bin_count tw rw aw =
     (if bin_count \<le> 0 then Inl ValueError
      else if min_ambient \<ge> max_ambient then Inl ValueError
      else
        let bin_size = (max_ambient - min_ambient) div bin_count
        in Inr \<lparr>ambient_bins =
                  map (\<lambda>i. let bin_min = min_ambient + i * bin_size;
                               bin_max = (if i = bin_count - 1 then max_ambient
                                          else bin_min + bin_size)
                           in AdaptiveBin_init bin_min bin_max 50)
                      [0..bin_count - 1],
                time_weight = tw, recency_weight = rw, activity_weight = aw,
                last_predictions = [],
                max_age_seconds = 7 * 24 * 3600\<rparr>)"

definition is_outlier :: "DataPoint \<Rightarrow> DataPoint option \<Rightarrow> bool" where
  "is_outlier new_point last_point =
     (case last_point of
        None \<Rightarrow> False
      | Some lp \<Rightarrow>
          (let brightness_diff = \<bar>screen_brightness new_point - screen_brightness lp\<bar>;
               ambient_diff = \<bar>ambient_light new_point - ambient_light lp\<bar>
           in brightness_diff > 80 \<or> ambient_diff > 1200))"

text \<open>\<^verbatim>\<open>max(points, key=lambda p: p.timestamp)\<close>: the first point with the largest
  timestamp; \<open>best\<close> is the candidate so far.\<close>

fun max_by_timestamp :: "WeightedDataPoint \<Rightarrow> WeightedDataPoint list \<Rightarrow> WeightedDataPoint" where
  "max_by_timestamp best [] = best"
| "max_by_timestamp best (p # ps) =
     (if point_timestamp p > point_timestamp best then max_by_timestamp p ps
      else max_by_timestamp best ps)"

text \<open>The loop of \<^verbatim>\<open>_find_last_point_in_bins\<close>; its state is
  \<open>(latest_timestamp, last_point_info)\<close>.\<close>

fun find_last_loop ::
  "AdaptiveBin list \<Rightarrow> int \<times> (int \<times> int \<times> int) option \<Rightarrow> int \<times> (int \<times> int \<times> int) option" where
  "find_last_loop [] st = st"
| "find_last_loop (b # bs) (latest_timestamp, last_point_info) =
     (case points b of
        [] \<Rightarrow> find_last_loop bs (latest_timestamp, last_point_info)
      | p # ps \<Rightarrow>
          (let current_last_point = max_by_timestamp p ps
           in if point_timestamp current_last_point > latest_timestamp
              then find_last_loop bs
                     (point_timestamp current_last_point,
                      Some (point_timestamp current_last_point,
                            (min_value b + max_value b) div 2,
                            brightness current_last_point))
              else find_last_loop bs (latest_timestamp, last_point_info)))"

definition find_last_point_in_bins :: "EnhancedBrightnessModel \<Rightarrow> DataPoint option" where
  "find_last_point_in_bins m =
     (case snd (find_last_loop (ambient_bins m) (- 1, None)) of
        Some (ts, amb, bright) \<Rightarrow>
          Some \<lparr>timestamp = ts, ambient_light = amb, screen_brightness = bright,
                is_manual_adjustment = True\<rparr>
      | None \<Rightarrow> None)"

subsubsection \<open>\<^verbatim>\<open>adapt_bins\<close>\<close>

text \<open>One pass of the loop body on bin \<open>i\<close> of \<open>bin_count\<close>. The bin is mutated field by
  field, so the result is the bin as it stands when the body ends, with the
  \<^verbatim>\<open>IndexError\<close> that ended it, if any.\<close>

definition adapt_one :: "int list \<Rightarrow> int \<Rightarrow> int \<Rightarrow> AdaptiveBin \<Rightarrow> AdaptiveBin \<times> py_error option" where
  "adapt_one ambient_list bin_count i b =
     (let L = int (length ambient_list);
          start_idx = (i * L) div bin_count;
          end_idx = min (((i + 1) * L) div bin_count - 1) (L - 1)
      in if start_idx \<ge> L \<or> end_idx < 0 \<or> start_idx > end_idx then (b, None)
         else
           case py_getitem ambient_list start_idx of
             Inl e \<Rightarrow> (b, Some e)
           | Inr lo \<Rightarrow>
               (let b1 = b\<lparr>min_value := lo\<rparr>
                in case py_getitem ambient_list (if i = bin_count - 1 then - 1 else end_idx) of
                     Inl e \<Rightarrow> (b1, Some e)
                   | Inr hi \<Rightarrow>
                       (let b2 = b1\<lparr>max_value := hi\<rparr>
                        in if min_value b2 \<ge> max_value b2 \<and> i < bin_count - 1
                           then if end_idx + 1 < L
                                then case py_getitem ambient_list (end_idx + 1) of
                                       Inl e \<Rightarrow> (b2, Some e)
                                     | Inr hi' \<Rightarrow> (b2\<lparr>max_value := hi'\<rparr>, None)
                                else (b2, None)
                           else (b2, None))))"

text \<open>The \<^verbatim>\<open>for i, bin_ in enumerate(self.ambient_bins)\<close> loop inside \<^verbatim>\<open>try\<close>: an
  \<^verbatim>\<open>IndexError\<close> ends the loop and leaves the remaining bins as they are.\<close>

fun adapt_loop :: "int list \<Rightarrow> int \<Rightarrow> int \<Rightarrow> AdaptiveBin list \<Rightarrow> AdaptiveBin list" where
  "adapt_loop ambient_list bin_count i [] = []"
| "adapt_loop ambient_list bin_count i (b # bs) =
     (case adapt_one ambient_list bin_count i b of
        (b', Some e) \<Rightarrow> b' # bs
      | (b', None) \<Rightarrow> b' # adapt_loop ambient_list bin_count (i + 1) bs)"

definition adapt_bins :: "EnhancedBrightnessModel \<Rightarrow> DataPoint list \<Rightarrow> EnhancedBrightnessModel" where
  "adapt_bins m historical_data =
     (if length historical_data < length (ambient_bins m) * 2 then m
      else
        let ambient_list = sort (map ambient_light historical_data);
            bin_count = int (length (ambient_bins m))
        in m\<lparr>ambient_bins := adapt_loop ambient_list bin_count 0 (ambient_bins m)\<rparr>)"

subsubsection \<open>Weights and training\<close>

text \<open>The recency term of \<^verbatim>\<open>_calculate_weight\<close> (its local
  \<^verbatim>\<open>recency_weight_component\<close>); the division raises when \<open>max_age_seconds\<close> is 0.\<close>

definition recency_weight_component :: "EnhancedBrightnessModel \<Rightarrow> int \<Rightarrow> py_error + real" where
  "recency_weight_component m time_diff_seconds =
     bind_err (py_truediv (real_of_int time_diff_seconds) (real_of_int (max_age_seconds m)))
       (\<lambda>q. let age_factor = max 0 (1 - q) in Inr (recency_weight m * age_factor))"

definition calculate_weight ::
  "EnhancedBrightnessModel \<Rightarrow> TimeFeatures \<Rightarrow> TimeFeatures \<Rightarrow> int \<Rightarrow> bool \<Rightarrow> py_error + real" where
  "calculate_weight m current_time_features point_time_features time_diff_seconds is_active =
     (let time_similarity =
            (if is_day current_time_features = is_day point_time_features then 1 else 0.2);
          time_weight_component = time_weight m * time_similarity
      in bind_err (recency_weight_component m time_diff_seconds)
           (\<lambda>recency_component.
              let activity_similarity = (if is_active then 1 else 0.5);
                  activity_weight_component = activity_weight m * activity_similarity
              in Inr (time_weight_component + recency_component + activity_weight_component)))"

text \<open>The bin search of \<^verbatim>\<open>train\<close>. \<open>i\<close> is the position of the head of the remaining
  list and \<open>n\<close> the number of bins. The source tests \<^verbatim>\<open>bin_ == self.ambient_bins[-1]\<close>,
  which is object identity (the class defines no \<^verbatim>\<open>__eq__\<close>); the bins are distinct
  objects, so this is the test that \<open>i\<close> is the last position.\<close>

fun train_find_bin :: "AdaptiveBin list \<Rightarrow> nat \<Rightarrow> nat \<Rightarrow> int \<Rightarrow> nat option" where
  "train_find_bin [] i n x = None"
| "train_find_bin (b # bs) i n x =
     (let is_last_bin = (Suc i = n)
      in if (min_value b \<le> x \<and> x < max_value b) \<or> (is_last_bin \<and> x \<ge> min_value b)
         then Some i
         else train_find_bin bs (Suc i) n x)"

definition train ::
  "(int \<Rightarrow> int) \<Rightarrow> EnhancedBrightnessModel \<Rightarrow> DataPoint \<Rightarrow> int \<Rightarrow> bool
     \<Rightarrow> py_error + EnhancedBrightnessModel" where
  "train lh m data_point current_timestamp is_active =
     (if \<not> is_manual_adjustment data_point then Inr m
      else
        let last_point = find_last_point_in_bins m
        in if is_outlier data_point last_point then Inr m
           else
             let current_time_features = from_timestamp lh current_timestamp;
                 point_time_features = from_timestamp lh (timestamp data_point);
                 time_diff = max 0 (current_timestamp - timestamp data_point)
             in bind_err
                  (calculate_weight m current_time_features point_time_features time_diff
                     is_active)
                  (\<lambda>w. case train_find_bin (ambient_bins m) 0 (length (ambient_bins m))
                               (ambient_light data_point) of
                         Some k \<Rightarrow>
                           Inr (m\<lparr>ambient_bins :=
                                    (ambient_bins m)
                                      [k := update (ambient_bins m ! k)
                                              (screen_brightness data_point) w
                                              (timestamp data_point)]\<rparr>)
                       | None \<Rightarrow> Inr m))"

subsubsection \<open>Prediction\<close>

text \<open>The bin search of \<^verbatim>\<open>predict\<close>, on \<^verbatim>\<open>current_ambient = float(ambient_light)\<close>; it
  yields \<open>(main_bin_index, main_bin)\<close>.\<close>

fun predict_find_bin :: "AdaptiveBin list \<Rightarrow> nat \<Rightarrow> nat \<Rightarrow> real \<Rightarrow> (nat \<times> AdaptiveBin) option" where
  "predict_find_bin [] i n x = None"
| "predict_find_bin (b # bs) i n x =
     (let is_last_bin = (Suc i = n)
      in if (real_of_int (min_value b) \<le> x \<and> x < real_of_int (max_value b))
            \<or> (is_last_bin \<and> x \<ge> real_of_int (min_value b))
         then Some (i, b)
         else predict_find_bin bs (Suc i) n x)"

text \<open>The search for a neighbouring bin with data, over the offsets
  \<^verbatim>\<open>range(1, len(self.ambient_bins))\<close>: at each offset the lower neighbour first.\<close>

fun neighbor_search :: "AdaptiveBin list \<Rightarrow> nat \<Rightarrow> nat list \<Rightarrow> py_error + real option" where
  "neighbor_search bins k [] = Inr None"
| "neighbor_search bins k (d # ds) =
     (let prev_idx = int k - int d; next_idx = int k + int d
      in bind_err
           (if prev_idx \<ge> 0 then bind_err (py_getitem bins prev_idx) get_weighted_average
            else Inr None)
           (\<lambda>prev_pred.
              case prev_pred of
                Some v \<Rightarrow> Inr (Some v)
              | None \<Rightarrow>
                  bind_err
                    (if next_idx < int (length bins)
                     then bind_err (py_getitem bins next_idx) get_weighted_average
                     else Inr None)
                    (\<lambda>next_pred.
                       case next_pred of
                         Some v \<Rightarrow> Inr (Some v)
                       | None \<Rightarrow> neighbor_search bins k ds)))"

text \<open>The neighbour used for interpolation near a bin boundary: the pair
  \<open>(neighbor_prediction, interpolation_weight)\<close>.\<close>

definition interpolation_neighbor ::
  "AdaptiveBin list \<Rightarrow> nat \<Rightarrow> real \<Rightarrow> real \<Rightarrow> real \<Rightarrow> py_error + (real option \<times> real)" where
  "interpolation_neighbor bins main_bin_index position_in_bin time_factor activity_factor =
     (let interpolation_threshold = 0.2
      in if position_in_bin < interpolation_threshold \<and> main_bin_index > 0
         then bind_err (py_getitem bins (int main_bin_index - 1))
                (\<lambda>prev_bin. bind_err (get_weighted_average prev_bin)
                   (\<lambda>neighbor_prediction.
                      case neighbor_prediction of
                        None \<Rightarrow> Inr (None, 0)
                      | Some v \<Rightarrow>
                          bind_err
                            (py_truediv (interpolation_threshold - position_in_bin)
                               interpolation_threshold)
                            (\<lambda>iw. Inr (Some (v * (time_factor * activity_factor)), iw))))
         else if position_in_bin > 1 - interpolation_threshold
                 \<and> int main_bin_index < int (length bins) - 1
         then bind_err (py_getitem bins (int main_bin_index + 1))
                (\<lambda>next_bin. bind_err (get_weighted_average next_bin)
                   (\<lambda>neighbor_prediction.
                      case neighbor_prediction of
                        None \<Rightarrow> Inr (None, 0)
                      | Some v \<Rightarrow>
                          bind_err
                            (py_truediv (position_in_bin - (1 - interpolation_threshold))
                               interpolation_threshold)
                            (\<lambda>iw. Inr (Some (v * (time_factor * activity_factor)), iw))))
         else Inr (None, 0))"

text \<open>\<^verbatim>\<open>append\<close> on the \<^verbatim>\<open>deque(maxlen=3)\<close>: the newest three entries are kept.\<close>

definition deque_append :: "real list \<Rightarrow> real \<Rightarrow> real list" where
  "deque_append xs a = (let ys = xs @ [a] in drop (length ys - 3) ys)"

text \<open>The body of \<^verbatim>\<open>predict\<close> is given step by step, in the order of the source.
  First the average of the main bin or, when it has none, of the nearest bin that has
  one.\<close>

definition base_prediction :: "AdaptiveBin list \<Rightarrow> nat \<Rightarrow> AdaptiveBin \<Rightarrow> py_error + real option" where
  "base_prediction bins main_bin_index main_bin =
     bind_err (get_weighted_average main_bin)
       (\<lambda>main_prediction.
          case main_prediction of
            Some v \<Rightarrow> Inr (Some v)
          | None \<Rightarrow> neighbor_search bins main_bin_index [1..<length bins])"

text \<open>\<^verbatim>\<open>position_in_bin\<close>: the relative position of the reading in the main bin.\<close>

definition position_in_bin :: "AdaptiveBin \<Rightarrow> real \<Rightarrow> py_error + real" where
  "position_in_bin main_bin current_ambient =
     (let bin_range = real_of_int (max_value main_bin - min_value main_bin)
      in if bin_range > 0
         then py_truediv (current_ambient - real_of_int (min_value main_bin)) bin_range
         else Inr 0.5)"

text \<open>The last \<^verbatim>\<open>if\<close> of the interpolation: the blend with the neighbour's prediction.\<close>

definition apply_interpolation :: "real \<Rightarrow> real option \<Rightarrow> real \<Rightarrow> real" where
  "apply_interpolation adjusted_prediction neighbor_prediction interpolation_weight =
     (case neighbor_prediction of
        Some np \<Rightarrow>
          if 0 < interpolation_weight \<and> interpolation_weight \<le> 1
          then adjusted_prediction * (1 - interpolation_weight) + np * interpolation_weight
          else adjusted_prediction
      | None \<Rightarrow> adjusted_prediction)"

text \<open>The time and activity factors and the interpolation, from \<^verbatim>\<open>main_prediction\<close> to
  the value of \<^verbatim>\<open>adjusted_prediction\<close> that is appended to the window.\<close>

definition adjust_and_interpolate ::
  "(int \<Rightarrow> int) \<Rightarrow> AdaptiveBin list \<Rightarrow> nat \<Rightarrow> AdaptiveBin \<Rightarrow> real \<Rightarrow> int \<Rightarrow> bool \<Rightarrow> real
     \<Rightarrow> py_error + real" where
  "adjust_and_interpolate lh bins main_bin_index main_bin current_ambient ts is_active
     main_prediction =
     (let time_features = from_timestamp lh ts;
          time_factor = (if is_day time_features then 1 else 0.8);
          activity_factor = (if is_active then 1 else 0.9);
          adjusted_prediction = main_prediction * time_factor * activity_factor
      in bind_err (position_in_bin main_bin current_ambient)
           (\<lambda>pos.
              bind_err (interpolation_neighbor bins main_bin_index pos time_factor activity_factor)
                (\<lambda>(neighbor_prediction, interpolation_weight).
                   Inr (apply_interpolation adjusted_prediction neighbor_prediction
                          interpolation_weight))))"

text \<open>\<^verbatim>\<open>predict\<close> up to the smoothing step. \<open>None\<close> is one of the two \<^verbatim>\<open>return None\<close>
  (no bin matches, or no bin has data).\<close>

definition interpolated_prediction ::
  "(int \<Rightarrow> int) \<Rightarrow> AdaptiveBin list \<Rightarrow> int \<Rightarrow> int \<Rightarrow> bool \<Rightarrow> py_error + real option" where
  "interpolated_prediction lh bins ambient ts is_active =
     (let current_ambient = real_of_int ambient
      in case predict_find_bin bins 0 (length bins) current_ambient of
           None \<Rightarrow> Inr None
         | Some (main_bin_index, main_bin) \<Rightarrow>
             bind_err (base_prediction bins main_bin_index main_bin)
               (\<lambda>found_prediction.
                  case found_prediction of
                    None \<Rightarrow> Inr None
                  | Some main_prediction \<Rightarrow>
                      bind_err
                        (adjust_and_interpolate lh bins main_bin_index main_bin current_ambient
                           ts is_active main_prediction)
                        (\<lambda>v. Inr (Some v))))"

text \<open>\<^verbatim>\<open>predict\<close> returns the prediction (\<open>None\<close> is Python's \<^verbatim>\<open>None\<close>) and the model after
  the call: the value is appended to the window, and the mean of the window, clamped to
  \<open>[0, 100]\<close>, is returned.\<close>

definition predict ::
  "(int \<Rightarrow> int) \<Rightarrow> EnhancedBrightnessModel \<Rightarrow> int \<Rightarrow> int \<Rightarrow> bool
     \<Rightarrow> py_error + (real option \<times> EnhancedBrightnessModel)" where
  "predict lh m ambient ts is_active =
     bind_err (interpolated_prediction lh (ambient_bins m) ambient ts is_active)
       (\<lambda>r. case r of
               None \<Rightarrow> Inr (None, m)
             | Some adjusted_prediction \<Rightarrow>
                 (let window = deque_append (last_predictions m) adjusted_prediction
                  in bind_err
                       (if window = [] then Inr adjusted_prediction
                        else py_truediv (sum_list window) (real (length window)))
                       (\<lambda>smoothed_prediction.
                          Inr (Some (max 0 (min 100 smoothed_prediction)),
                               m\<lparr>last_predictions := window\<rparr>))))"

subsubsection \<open>Cleanup and batch load\<close>

definition cleanup :: "EnhancedBrightnessModel \<Rightarrow> int \<Rightarrow> EnhancedBrightnessModel" where
  "cleanup m current_timestamp =
     m\<lparr>ambient_bins :=
         map (\<lambda>b. bin_cleanup b current_timestamp (max_age_seconds m)) (ambient_bins m)\<rparr>"

text \<open>The training loop of \<^verbatim>\<open>load_historical_data\<close>: an exception of \<^verbatim>\<open>train\<close> ends
  it.\<close>

fun train_history ::
  "(int \<Rightarrow> int) \<Rightarrow> EnhancedBrightnessModel \<Rightarrow> DataPoint list
     \<Rightarrow> py_error + EnhancedBrightnessModel" where
  "train_history lh m [] = Inr m"
| "train_history lh m (point # rest) =
     bind_err (train lh m point (timestamp point) True) (\<lambda>m'. train_history lh m' rest)"

text \<open>\<^verbatim>\<open>sorted(data_points, key=lambda p: p.timestamp)\<close> is a stable sort, as is
  \<open>sort_key\<close>.\<close>

definition load_historical_data ::
  "(int \<Rightarrow> int) \<Rightarrow> EnhancedBrightnessModel \<Rightarrow> DataPoint list \<Rightarrow> int \<Rightarrow> bool
     \<Rightarrow> py_error + EnhancedBrightnessModel" where
  "load_historical_data lh m data_points current_timestamp is_active =
     (let m1 = adapt_bins m data_points;
          sorted_data = sort_key timestamp data_points
      in train_history lh m1 sorted_data)"

section \<open>Predicates and call sequences used in the statements\<close>

text \<open>The bookkeeping invariant of a bin: \<open>total_weight\<close> is the sum of the weights of
  the stored points.\<close>

definition total_weight_exact :: "AdaptiveBin \<Rightarrow> bool" where
  "total_weight_exact b = (total_weight b = sum_list (map weight (points b)))"

text \<open>A sequence of \<^verbatim>\<open>update\<close> calls on one bin, each call given as
  \<open>(brightness, weight, timestamp)\<close>.\<close>

definition updates :: "AdaptiveBin \<Rightarrow> (int \<times> real \<times> int) list \<Rightarrow> AdaptiveBin" where
  "updates b us = foldl (\<lambda>b (br, w, ts). update b br w ts) b us"

text \<open>Two consecutive calls of \<^verbatim>\<open>predict\<close> with the same arguments: the pair of the two
  results.\<close>

definition predict_twice ::
  "(int \<Rightarrow> int) \<Rightarrow> EnhancedBrightnessModel \<Rightarrow> int \<Rightarrow> int \<Rightarrow> bool
     \<Rightarrow> py_error + (real option \<times> real option)" where
  "predict_twice lh m ambient ts is_active =
     bind_err (predict lh m ambient ts is_active)
       (\<lambda>(r1, m1). bind_err (predict lh m1 ambient ts is_active)
          (\<lambda>(r2, m2). Inr (r1, r2)))"

text \<open>The mean of the window, clamped: the last two steps of \<^verbatim>\<open>predict\<close> on a non-empty
  window.\<close>

definition clamped_mean :: "real list \<Rightarrow> real" where
  "clamped_mean w = max 0 (min 100 (sum_list w / real (length w)))"

subsection \<open>Sample inputs\<close>

text \<open>A host whose local time is UTC.\<close>

definition utc_hour :: "int \<Rightarrow> int" where
  "utc_hour t = (t div 3600) mod 24"

text \<open>The model \<^verbatim>\<open>EnhancedBrightnessModel(0, 100, 2, 0.3, 0.4, 0.3)\<close>.\<close>

definition fresh_model :: EnhancedBrightnessModel where
  "fresh_model =
     \<lparr>ambient_bins =
        [\<lparr>min_value = 0, max_value = 50, points = [], total_weight = 0, max_points = 50\<rparr>,
         \<lparr>min_value = 50, max_value = 100, points = [], total_weight = 0, max_points = 50\<rparr>],
      time_weight = 0.3, recency_weight = 0.4, activity_weight = 0.3,
      last_predictions = [], max_age_seconds = 604800\<rparr>"

text \<open>\<^verbatim>\<open>DataPoint(timestamp=t, ambient_light=a, screen_brightness=b,
  is_manual_adjustment=True)\<close>.\<close>

definition manual_point :: "int \<Rightarrow> int \<Rightarrow> int \<Rightarrow> DataPoint" where
  "manual_point t a b =
     \<lparr>timestamp = t, ambient_light = a, screen_brightness = b, is_manual_adjustment = True\<rparr>"

text \<open>\<open>fresh_model\<close> after \<^verbatim>\<open>train(DataPoint(0, 10, 20, True), 0, True)\<close>.\<close>

definition trained_model :: EnhancedBrightnessModel where
  "trained_model =
     \<lparr>ambient_bins =
        [\<lparr>min_value = 0, max_value = 50,
          points = [\<lparr>brightness = 20, weight = 1, point_timestamp = 0\<rparr>],
          total_weight = 1, max_points = 50\<rparr>,
         \<lparr>min_value = 50, max_value = 100, points = [], total_weight = 0, max_points = 50\<rparr>],
      time_weight = 0.3, recency_weight = 0.4, activity_weight = 0.3,
      last_predictions = [], max_age_seconds = 604800\<rparr>"

subsection \<open>The bins as a partition\<close>

text \<open>\<open>contiguous\<close>: each bin ends where the next begins. \<open>non_overlapping\<close>: each bin
  ends at or before the beginning of the next. \<open>well_formed\<close>: no bin has its \<open>max_value\<close>
  below its \<open>min_value\<close>.\<close>

fun contiguous :: "AdaptiveBin list \<Rightarrow> bool" where
  "contiguous (a # b # bs) = (max_value a = min_value b \<and> contiguous (b # bs))"
| "contiguous bs = True"

fun non_overlapping :: "AdaptiveBin list \<Rightarrow> bool" where
  "non_overlapping (a # b # bs) = (max_value a \<le> min_value b \<and> non_overlapping (b # bs))"
| "non_overlapping bs = True"

definition well_formed :: "AdaptiveBin list \<Rightarrow> bool" where
  "well_formed bs = list_all (\<lambda>b. min_value b \<le> max_value b) bs"

text \<open>The bins are sorted ascending, contiguous, and cover exactly \<open>[lo, hi]\<close>.\<close>

definition bins_partition :: "int \<Rightarrow> int \<Rightarrow> AdaptiveBin list \<Rightarrow> bool" where
  "bins_partition lo hi bs =
     (bs \<noteq> [] \<and> min_value (hd bs) = lo \<and> max_value (last bs) = hi
      \<and> well_formed bs \<and> contiguous bs)"

text \<open>The bins are sorted ascending and do not overlap; gaps are allowed.\<close>

definition bins_ordered :: "AdaptiveBin list \<Rightarrow> bool" where
  "bins_ordered bs = (well_formed bs \<and> non_overlapping bs)"

text \<open>The half-open range \<open>[min_value, max_value)\<close> of a bin.\<close>

definition in_bin :: "AdaptiveBin \<Rightarrow> int \<Rightarrow> bool" where
  "in_bin b x = (min_value b \<le> x \<and> x < max_value b)"

text \<open>The history of four observations with ambient light 10, 20, 30 and 40.\<close>

definition history4 :: "DataPoint list" where
  "history4 = [manual_point 1 10 50, manual_point 2 20 50, manual_point 3 30 50,
               manual_point 4 40 50]"

section \<open>Python's numeric conversions and double-precision arithmetic\<close>

text \<open>
  The functions above compute with exact reals and take the conversions from \<^verbatim>\<open>int\<close> to
  \<^verbatim>\<open>float\<close> and \<^verbatim>\<open>time.localtime\<close> as total. This section writes out what Python does
  at those places: a conversion rounds to the nearest double and raises
  \<^verbatim>\<open>OverflowError\<close> beyond the range of the doubles, every arithmetic operation on floats
  rounds its exact result to the nearest double (ties to the even mantissa), and
  \<^verbatim>\<open>time.localtime\<close> may raise. A float is still a real: the finite doubles are the values
  of \<open>rnd\<close>. An arithmetic result that overflows to infinity, NaN and subnormal numbers
  are not modelled; none of them raises an exception.
\<close>

subsection \<open>Rounding to a double\<close>

text \<open>\<^verbatim>\<open>int.bit_length\<close>.\<close>

fun bit_length :: "nat \<Rightarrow> nat" where
  "bit_length n = (if n = 0 then 0 else Suc (bit_length (n div 2)))"

declare bit_length.simps [simp del]

definition pow2 :: "int \<Rightarrow> real" where
  "pow2 e = (if 0 \<le> e then 2 ^ nat e else 1 / 2 ^ nat (- e))"

text \<open>For \<open>x > 0\<close>, the integer \<open>e\<close> with \<open>2 ^ e \<le> x < 2 ^ (e + 1)\<close>.\<close>

definition ilog2 :: "real \<Rightarrow> int" where
  "ilog2 x = (if 1 \<le> x then int (bit_length (nat \<lfloor>x\<rfloor>)) - 1
              else - int (bit_length (nat \<lceil>1 / x\<rceil> - 1)))"

definition round_half_even :: "real \<Rightarrow> int" where
  "round_half_even x =
     (let f = \<lfloor>x\<rfloor>; d = x - real_of_int f
      in if d < 1 / 2 then f else if 1 / 2 < d then f + 1 else if even f then f else f + 1)"

text \<open>The double nearest to \<open>x\<close>: a multiple of \<open>2 ^ (e - 52)\<close> for \<open>2 ^ e \<le> \<bar>x\<bar> < 2 ^ (e + 1)\<close>,
  that is, 53 significant bits.\<close>

definition rnd :: "real \<Rightarrow> real" where
  "rnd x = (if x = 0 then 0
            else let u = pow2 (ilog2 \<bar>x\<bar> - 52) in real_of_int (round_half_even (x / u)) * u)"

text \<open>\<^verbatim>\<open>float(n)\<close>, and the conversion of an \<^verbatim>\<open>int\<close> operand of a float operation: it
  raises when the rounded value would exceed the largest double.\<close>

definition fits_double :: "int \<Rightarrow> bool" where
  "fits_double n = (\<bar>n\<bar> < 2 ^ 1024 - 2 ^ 970)"

definition float_of_int :: "int \<Rightarrow> py_error + real" where
  "float_of_int n = (if fits_double n then Inr (rnd (real_of_int n)) else Inl OverflowError)"

definition dadd :: "real \<Rightarrow> real \<Rightarrow> real" where
  "dadd x y = rnd (x + y)"

definition dsub :: "real \<Rightarrow> real \<Rightarrow> real" where
  "dsub x y = rnd (x - y)"

definition dmul :: "real \<Rightarrow> real \<Rightarrow> real" where
  "dmul x y = rnd (x * y)"

definition ddiv :: "real \<Rightarrow> real \<Rightarrow> py_error + real" where
  "ddiv x y = (if y = 0 then Inl ZeroDivisionError else Inr (rnd (x / y)))"

text \<open>The left-to-right sum of floats, from 0: what an accumulation with \<^verbatim>\<open>+=\<close>
  computes.\<close>

definition dsum :: "real list \<Rightarrow> real" where
  "dsum xs = foldl dadd 0 xs"

subsection \<open>\<^verbatim>\<open>AdaptiveBin\<close> in double precision\<close>

definition update_d :: "AdaptiveBin \<Rightarrow> int \<Rightarrow> real \<Rightarrow> int \<Rightarrow> AdaptiveBin" where
  "update_d b br w ts =
     (let ps = points b @ [\<lparr>brightness = br, weight = w, point_timestamp = ts\<rparr>];
          tw = dadd (total_weight b) w
      in if int (length ps) > max_points b
         then let idx = min_weight_idx ps
              in b\<lparr>points := pop ps idx, total_weight := dsub tw (weight (ps ! idx))\<rparr>
         else b\<lparr>points := ps, total_weight := tw\<rparr>)"

fun cleanup_loop_d ::
  "WeightedDataPoint list \<Rightarrow> int \<Rightarrow> int \<Rightarrow> WeightedDataPoint list \<times> real
     \<Rightarrow> WeightedDataPoint list \<times> real" where
  "cleanup_loop_d [] now ma acc = acc"
| "cleanup_loop_d (p # ps) now ma (new_points, new_total_weight) =
     (if now - point_timestamp p \<le> ma
      then cleanup_loop_d ps now ma (new_points @ [p], dadd new_total_weight (weight p))
      else cleanup_loop_d ps now ma (new_points, new_total_weight))"

definition bin_cleanup_d :: "AdaptiveBin \<Rightarrow> int \<Rightarrow> int \<Rightarrow> AdaptiveBin" where
  "bin_cleanup_d b current_timestamp ma =
     (let (new_points, new_total_weight) = cleanup_loop_d (points b) current_timestamp ma ([], 0)
      in b\<lparr>points := new_points, total_weight := new_total_weight\<rparr>)"

text \<open>A sequence of \<^verbatim>\<open>update\<close> calls in double precision.\<close>

definition updates_d :: "AdaptiveBin \<Rightarrow> (int \<times> real \<times> int) list \<Rightarrow> AdaptiveBin" where
  "updates_d b us = foldl (\<lambda>b (br, w, ts). update_d b br w ts) b us"

text \<open>\<open>total_weight\<close> is the left-to-right double sum of the stored weights.\<close>

definition total_weight_dsum :: "AdaptiveBin \<Rightarrow> bool" where
  "total_weight_dsum b = (total_weight b = dsum (map weight (points b)))"

subsection \<open>\<^verbatim>\<open>predict\<close> with its conversions and in double precision\<close>

text \<open>\<open>lt\<close> is \<^verbatim>\<open>time.localtime(t).tm_hour\<close> or the exception that \<^verbatim>\<open>time.localtime\<close>
  raises for a timestamp that the platform does not accept.\<close>

definition from_timestamp_d :: "(int \<Rightarrow> py_error + int) \<Rightarrow> int \<Rightarrow> py_error + TimeFeatures" where
  "from_timestamp_d lt t = bind_err (lt t) (\<lambda>h. Inr \<lparr>hour = h, is_day = (6 \<le> h \<and> h < 18)\<rparr>)"

text \<open>\<^verbatim>\<open>sum(p.brightness * p.weight for p in self.points)\<close>: each product converts the
  integer brightness to a float. (The sum is taken left to right; CPython from 3.12 on
  compensates the rounding errors of \<^verbatim>\<open>sum\<close>, which can change the last bits of the
  result and nothing else.)\<close>

fun weighted_sum_d :: "WeightedDataPoint list \<Rightarrow> real \<Rightarrow> py_error + real" where
  "weighted_sum_d [] acc = Inr acc"
| "weighted_sum_d (p # ps) acc =
     bind_err (float_of_int (brightness p))
       (\<lambda>br. weighted_sum_d ps (dadd acc (dmul br (weight p))))"

definition get_weighted_average_d :: "AdaptiveBin \<Rightarrow> py_error + real option" where
  "get_weighted_average_d b =
     (if points b = [] \<or> total_weight b = 0 then Inr None
      else bind_err (weighted_sum_d (points b) 0)
             (\<lambda>weighted_sum. bind_err (ddiv weighted_sum (total_weight b)) (\<lambda>v. Inr (Some v))))"

fun neighbor_search_d :: "AdaptiveBin list \<Rightarrow> nat \<Rightarrow> nat list \<Rightarrow> py_error + real option" where
  "neighbor_search_d bins k [] = Inr None"
| "neighbor_search_d bins k (d # ds) =
     (let prev_idx = int k - int d; next_idx = int k + int d
      in bind_err
           (if prev_idx \<ge> 0 then bind_err (py_getitem bins prev_idx) get_weighted_average_d
            else Inr None)
           (\<lambda>prev_pred.
              case prev_pred of
                Some v \<Rightarrow> Inr (Some v)
              | None \<Rightarrow>
                  bind_err
                    (if next_idx < int (length bins)
                     then bind_err (py_getitem bins next_idx) get_weighted_average_d
                     else Inr None)
                    (\<lambda>next_pred.
                       case next_pred of
                         Some v \<Rightarrow> Inr (Some v)
                       | None \<Rightarrow> neighbor_search_d bins k ds)))"

definition base_prediction_d :: "AdaptiveBin list \<Rightarrow> nat \<Rightarrow> AdaptiveBin \<Rightarrow> py_error + real option" where
  "base_prediction_d bins main_bin_index main_bin =
     bind_err (get_weighted_average_d main_bin)
       (\<lambda>main_prediction.
          case main_prediction of
            Some v \<Rightarrow> Inr (Some v)
          | None \<Rightarrow> neighbor_search_d bins main_bin_index [1..<length bins])"

text \<open>\<^verbatim>\<open>bin_range = float(max_value - min_value)\<close>, then
  \<^verbatim>\<open>float(current_ambient - min_value) / bin_range\<close>, where the integer \<open>min_value\<close> is
  converted for the subtraction.\<close>

definition position_in_bin_d :: "AdaptiveBin \<Rightarrow> real \<Rightarrow> py_error + real" where
  "position_in_bin_d main_bin current_ambient =
     bind_err (float_of_int (max_value main_bin - min_value main_bin))
       (\<lambda>bin_range.
          if bin_range > 0
          then bind_err (float_of_int (min_value main_bin))
                 (\<lambda>lo. ddiv (dsub current_ambient lo) bin_range)
          else Inr 0.5)"

definition interpolation_neighbor_d ::
  "AdaptiveBin list \<Rightarrow> nat \<Rightarrow> real \<Rightarrow> real \<Rightarrow> real \<Rightarrow> py_error + (real option \<times> real)" where
  "interpolation_neighbor_d bins main_bin_index pos time_factor activity_factor =
     (let interpolation_threshold = rnd 0.2
      in if pos < interpolation_threshold \<and> main_bin_index > 0
         then bind_err (py_getitem bins (int main_bin_index - 1))
                (\<lambda>prev_bin. bind_err (get_weighted_average_d prev_bin)
                   (\<lambda>neighbor_prediction.
                      case neighbor_prediction of
                        None \<Rightarrow> Inr (None, 0)
                      | Some v \<Rightarrow>
                          bind_err
                            (ddiv (dsub interpolation_threshold pos)
                               interpolation_threshold)
                            (\<lambda>iw. Inr (Some (dmul v (dmul time_factor activity_factor)), iw))))
         else if pos > dsub 1 interpolation_threshold
                 \<and> int main_bin_index < int (length bins) - 1
         then bind_err (py_getitem bins (int main_bin_index + 1))
                (\<lambda>next_bin. bind_err (get_weighted_average_d next_bin)
                   (\<lambda>neighbor_prediction.
                      case neighbor_prediction of
                        None \<Rightarrow> Inr (None, 0)
                      | Some v \<Rightarrow>
                          bind_err
                            (ddiv (dsub pos (dsub 1 interpolation_threshold))
                               interpolation_threshold)
                            (\<lambda>iw. Inr (Some (dmul v (dmul time_factor activity_factor)), iw))))
         else Inr (None, 0))"

definition apply_interpolation_d :: "real \<Rightarrow> real option \<Rightarrow> real \<Rightarrow> real" where
  "apply_interpolation_d adjusted_prediction neighbor_prediction interpolation_weight =
     (case neighbor_prediction of
        Some np \<Rightarrow>
          if 0 < interpolation_weight \<and> interpolation_weight \<le> 1
          then dadd (dmul adjusted_prediction (dsub 1 interpolation_weight))
                    (dmul np interpolation_weight)
          else adjusted_prediction
      | None \<Rightarrow> adjusted_prediction)"

definition adjust_and_interpolate_d ::
  "(int \<Rightarrow> py_error + int) \<Rightarrow> AdaptiveBin list \<Rightarrow> nat \<Rightarrow> AdaptiveBin \<Rightarrow> real \<Rightarrow> int \<Rightarrow> bool
     \<Rightarrow> real \<Rightarrow> py_error + real" where
  "adjust_and_interpolate_d lt bins main_bin_index main_bin current_ambient ts is_active
     main_prediction =
     bind_err (from_timestamp_d lt ts)
       (\<lambda>time_features.
          let time_factor = (if is_day time_features then 1 else rnd 0.8);
              activity_factor = (if is_active then 1 else rnd 0.9);
              adjusted_prediction = dmul (dmul main_prediction time_factor) activity_factor
          in bind_err (position_in_bin_d main_bin current_ambient)
               (\<lambda>pos.
                  bind_err
                    (interpolation_neighbor_d bins main_bin_index pos time_factor activity_factor)
                    (\<lambda>(neighbor_prediction, interpolation_weight).
                       Inr (apply_interpolation_d adjusted_prediction neighbor_prediction
                              interpolation_weight))))"

definition interpolated_prediction_d ::
  "(int \<Rightarrow> py_error + int) \<Rightarrow> AdaptiveBin list \<Rightarrow> int \<Rightarrow> int \<Rightarrow> bool
     \<Rightarrow> py_error + real option" where
  "interpolated_prediction_d lt bins ambient ts is_active =
     bind_err (float_of_int ambient)
       (\<lambda>current_ambient.
          case predict_find_bin bins 0 (length bins) current_ambient of
            None \<Rightarrow> Inr None
          | Some (main_bin_index, main_bin) \<Rightarrow>
              bind_err (base_prediction_d bins main_bin_index main_bin)
                (\<lambda>found_prediction.
                   case found_prediction of
                     None \<Rightarrow> Inr None
                   | Some main_prediction \<Rightarrow>
                       bind_err
                         (adjust_and_interpolate_d lt bins main_bin_index main_bin
                            current_ambient ts is_active main_prediction)
                         (\<lambda>v. Inr (Some v))))"

definition predict_d ::
  "(int \<Rightarrow> py_error + int) \<Rightarrow> EnhancedBrightnessModel \<Rightarrow> int \<Rightarrow> int \<Rightarrow> bool
     \<Rightarrow> py_error + (real option \<times> EnhancedBrightnessModel)" where
  "predict_d lt m ambient ts is_active =
     bind_err (interpolated_prediction_d lt (ambient_bins m) ambient ts is_active)
       (\<lambda>r. case r of
               None \<Rightarrow> Inr (None, m)
             | Some adjusted_prediction \<Rightarrow>
                 (let window = deque_append (last_predictions m) adjusted_prediction
                  in bind_err
                       (if window = [] then Inr adjusted_prediction
                        else ddiv (dsum window) (real (length window)))
                       (\<lambda>smoothed_prediction.
                          Inr (Some (max 0 (min 100 smoothed_prediction)),
                               m\<lparr>last_predictions := window\<rparr>))))"

text \<open>The integers of a bin that \<^verbatim>\<open>predict\<close> converts to floats are in the range of the
  doubles: its lower bound, its width, and the brightness of each of its points.\<close>

definition bin_fits_double :: "AdaptiveBin \<Rightarrow> bool" where
  "bin_fits_double b =
     (fits_double (min_value b) \<and> fits_double (max_value b - min_value b)
      \<and> list_all (\<lambda>p. fits_double (brightness p)) (points b))"

text \<open>A host whose local time is UTC and whose \<^verbatim>\<open>time.localtime\<close> accepts every
  timestamp.\<close>

definition utc_localtime :: "int \<Rightarrow> py_error + int" where
  "utc_localtime t = Inr (utc_hour t)"

(*DEFS-END*)

section \<open>Properties of \<^verbatim>\<open>AdaptiveBin\<close>\<close>

subsection \<open>The scan for the smallest weight\<close>

lemma min_weight_loop_inv:
  assumes "ps = pre @ qs" "i = length pre" "mi < length ps" "mw = weight (ps ! mi)"
    "\<forall>j<i. mw \<le> weight (ps ! j)" "\<forall>j<mi. mw < weight (ps ! j)"
  shows "snd (min_weight_loop qs i (mw, mi)) < length ps
       \<and> fst (min_weight_loop qs i (mw, mi)) = weight (ps ! snd (min_weight_loop qs i (mw, mi)))
       \<and> (\<forall>j<length ps. fst (min_weight_loop qs i (mw, mi)) \<le> weight (ps ! j))
       \<and> (\<forall>j<snd (min_weight_loop qs i (mw, mi)). fst (min_weight_loop qs i (mw, mi)) < weight (ps ! j))"
  using assms
proof (induction qs arbitrary: pre i mw mi)
  case Nil
  then show ?case by simp
next
  case (Cons p rest)
  have p: "ps ! i = p" using Cons.prems(1,2) by simp
  have split: "ps = (pre @ [p]) @ rest" "Suc i = length (pre @ [p])"
    using Cons.prems(1,2) by simp_all
  have ilt: "i < length ps" using Cons.prems(1,2) by simp
  show ?case
  proof (cases "weight p < mw")
    case True
    have eq: "min_weight_loop (p # rest) i (mw, mi) = min_weight_loop rest (Suc i) (weight p, i)"
      using True by simp
    have a: "\<forall>j<Suc i. weight p \<le> weight (ps ! j)"
      using True Cons.prems(5) p by (auto simp: less_Suc_eq)
    have b: "\<forall>j<i. weight p < weight (ps ! j)"
      using True Cons.prems(5) by fastforce
    have c: "weight p = weight (ps ! i)" using p by simp
    show ?thesis unfolding eq by (rule Cons.IH[OF split ilt c a b])
  next
    case False
    have eq: "min_weight_loop (p # rest) i (mw, mi) = min_weight_loop rest (Suc i) (mw, mi)"
      using False by simp
    have a: "\<forall>j<Suc i. mw \<le> weight (ps ! j)"
      using False Cons.prems(5) p by (auto simp: less_Suc_eq)
    show ?thesis unfolding eq by (rule Cons.IH[OF split Cons.prems(3,4) a Cons.prems(6)])
  qed
qed

lemma min_weight_idx_props:
  assumes "ps \<noteq> []"
  shows "min_weight_idx ps < length ps"
    and "\<forall>j<length ps. weight (ps ! min_weight_idx ps) \<le> weight (ps ! j)"
    and "\<forall>j<min_weight_idx ps. weight (ps ! min_weight_idx ps) < weight (ps ! j)"
proof -
  have len: "0 < length ps" using assms by simp
  have inv: "snd (min_weight_loop ps 0 (weight (ps ! 0), 0)) < length ps
       \<and> fst (min_weight_loop ps 0 (weight (ps ! 0), 0))
           = weight (ps ! snd (min_weight_loop ps 0 (weight (ps ! 0), 0)))
       \<and> (\<forall>j<length ps. fst (min_weight_loop ps 0 (weight (ps ! 0), 0)) \<le> weight (ps ! j))
       \<and> (\<forall>j<snd (min_weight_loop ps 0 (weight (ps ! 0), 0)).
             fst (min_weight_loop ps 0 (weight (ps ! 0), 0)) < weight (ps ! j))"
    by (rule min_weight_loop_inv[of ps "[]" ps 0 0 "weight (ps ! 0)"]) (use assms in simp_all)
  show "min_weight_idx ps < length ps" using inv unfolding min_weight_idx_def by blast
  show "\<forall>j<length ps. weight (ps ! min_weight_idx ps) \<le> weight (ps ! j)"
    using inv unfolding min_weight_idx_def by metis
  show "\<forall>j<min_weight_idx ps. weight (ps ! min_weight_idx ps) < weight (ps ! j)"
    using inv unfolding min_weight_idx_def by metis
qed

lemma sum_list_pop:
  assumes "k < length xs"
  shows "sum_list (map f (pop xs k)) = sum_list (map f xs) - (f (xs ! k) :: real)"
proof -
  have "xs = take k xs @ xs ! k # drop (Suc k) xs"
    using assms by (rule id_take_nth_drop)
  then have "sum_list (map f xs) = sum_list (map f (take k xs @ xs ! k # drop (Suc k) xs))"
    by simp
  then show ?thesis by (simp add: pop_def)
qed

lemma length_pop: "k < length xs \<Longrightarrow> length (pop xs k) = length xs - 1"
  by (simp add: pop_def)

lemma cleanup_loop_eq:
  "cleanup_loop ps now ma (np, t) =
     (np @ filter (\<lambda>p. now - point_timestamp p \<le> ma) ps,
      t + sum_list (map weight (filter (\<lambda>p. now - point_timestamp p \<le> ma) ps)))"
  by (induction ps arbitrary: np t) simp_all

lemma bin_cleanup_eq:
  "bin_cleanup b now ma =
     b\<lparr>points := filter (\<lambda>p. now - point_timestamp p \<le> ma) (points b),
       total_weight := sum_list (map weight (filter (\<lambda>p. now - point_timestamp p \<le> ma) (points b)))\<rparr>"
  by (simp add: bin_cleanup_def cleanup_loop_eq)

subsection \<open>\<^verbatim>\<open>update\<close>: capacity, eviction, bookkeeping\<close>

lemma update_no_evict:
  "\<not> int (length (points b)) + 1 > max_points b \<Longrightarrow>
   update b br w ts = b\<lparr>points := points b @ [\<lparr>brightness = br, weight = w, point_timestamp = ts\<rparr>],
                         total_weight := total_weight b + w\<rparr>"
  by (simp add: update_def)

lemma update_evict:
  "int (length (points b)) + 1 > max_points b \<Longrightarrow>
   update b br w ts =
     b\<lparr>points := pop (points b @ [\<lparr>brightness = br, weight = w, point_timestamp = ts\<rparr>])
                    (min_weight_idx (points b @ [\<lparr>brightness = br, weight = w, point_timestamp = ts\<rparr>])),
       total_weight := total_weight b + w
          - weight ((points b @ [\<lparr>brightness = br, weight = w, point_timestamp = ts\<rparr>])
                     ! min_weight_idx (points b @ [\<lparr>brightness = br, weight = w, point_timestamp = ts\<rparr>]))\<rparr>"
  by (simp add: update_def Let_def)

lemma update_frame:
  "max_points (update b br w ts) = max_points b"
  "min_value (update b br w ts) = min_value b"
  "max_value (update b br w ts) = max_value b"
  by (simp_all add: update_def Let_def)

lemma update_length:
  "int (length (points b)) \<le> max_points b \<Longrightarrow>
   int (length (points (update b br w ts))) \<le> max_points b"
proof (cases "int (length (points b)) + 1 > max_points b")
  case True
  assume le: "int (length (points b)) \<le> max_points b"
  let ?ps = "points b @ [\<lparr>brightness = br, weight = w, point_timestamp = ts\<rparr>]"
  have "min_weight_idx ?ps < length ?ps" by (rule min_weight_idx_props(1)) simp
  then have "length (pop ?ps (min_weight_idx ?ps)) = length (points b)"
    by (simp add: length_pop)
  then show ?thesis using le by (simp add: update_evict[OF True])
next
  case False
  then show ?thesis by (simp add: update_no_evict)
qed

lemma update_total_weight_exact:
  assumes "total_weight_exact b"
  shows "total_weight_exact (update b br w ts)"
proof (cases "int (length (points b)) + 1 > max_points b")
  case True
  let ?ps = "points b @ [\<lparr>brightness = br, weight = w, point_timestamp = ts\<rparr>]"
  have k: "min_weight_idx ?ps < length ?ps" by (rule min_weight_idx_props(1)) simp
  have "sum_list (map weight (pop ?ps (min_weight_idx ?ps)))
        = sum_list (map weight ?ps) - weight (?ps ! min_weight_idx ?ps)"
    by (rule sum_list_pop[OF k])
  then show ?thesis using assms
    by (simp add: update_evict[OF True] total_weight_exact_def)
next
  case False
  then show ?thesis using assms by (simp add: update_no_evict total_weight_exact_def)
qed

lemma bin_cleanup_total_weight_exact: "total_weight_exact (bin_cleanup b now ma)"
  by (simp add: bin_cleanup_eq total_weight_exact_def)

lemma init_total_weight_exact: "total_weight_exact (AdaptiveBin_init lo hi cap)"
  by (simp add: AdaptiveBin_init_def total_weight_exact_def)

lemma updates_inv:
  "int (length (points b)) \<le> max_points b \<Longrightarrow>
   int (length (points (updates b us))) \<le> max_points b \<and> max_points (updates b us) = max_points b"
proof (induction us rule: rev_induct)
  case Nil
  then show ?case by (simp add: updates_def)
next
  case (snoc u us)
  obtain br w ts where u: "u = (br, w, ts)" by (cases u) auto
  have eq: "updates b (us @ [u]) = update (updates b us) br w ts"
    by (simp add: updates_def u)
  from snoc have ih: "int (length (points (updates b us))) \<le> max_points (updates b us)"
    "max_points (updates b us) = max_points b" by simp_all
  show ?case unfolding eq using update_length[OF ih(1), of br w ts] ih(2)
    by (simp add: update_frame)
qed

text \<open>
  Claim C4. A bin that holds at most \<open>max_points\<close> points still does after
  \<^verbatim>\<open>update\<close>, and so does a bin created with a capacity \<open>cap \<ge> 0\<close> after any sequence
  of updates. When \<^verbatim>\<open>update\<close> evicts (the list with the new point appended is longer than
  \<open>max_points\<close>), the point removed is at position \<open>k\<close> of that list, its weight is the
  smallest of all points of the list, every point before position \<open>k\<close> has a strictly
  larger weight (so \<open>k\<close> is the first point of smallest weight in insertion order), and
  \<open>total_weight\<close> becomes the old value plus the new weight minus the weight of the
  evicted point. Otherwise the point is appended and its weight added.
\<close>

theorem update_capacity_and_eviction:
  "(int (length (points b)) \<le> max_points b \<longrightarrow>
      int (length (points (update b br w ts))) \<le> max_points b)
   \<and> (0 \<le> cap \<longrightarrow> int (length (points (updates (AdaptiveBin_init lo hi cap) us))) \<le> cap)
   \<and> (let ps = points b @ [\<lparr>brightness = br, weight = w, point_timestamp = ts\<rparr>];
           k = min_weight_idx ps
       in if int (length ps) > max_points b
          then k < length ps
               \<and> points (update b br w ts) = take k ps @ drop (Suc k) ps
               \<and> (\<forall>p \<in> set ps. weight (ps ! k) \<le> weight p)
               \<and> (\<forall>j<k. weight (ps ! k) < weight (ps ! j))
               \<and> total_weight (update b br w ts) = total_weight b + w - weight (ps ! k)
          else points (update b br w ts) = ps
               \<and> total_weight (update b br w ts) = total_weight b + w)"
proof (intro conjI impI)
  assume "int (length (points b)) \<le> max_points b"
  then show "int (length (points (update b br w ts))) \<le> max_points b"
    by (rule update_length)
next
  assume "0 \<le> cap"
  then have "int (length (points (AdaptiveBin_init lo hi cap)))
             \<le> max_points (AdaptiveBin_init lo hi cap)"
    by (simp add: AdaptiveBin_init_def)
  from updates_inv[OF this, of us]
  show "int (length (points (updates (AdaptiveBin_init lo hi cap) us))) \<le> cap"
    by (simp add: AdaptiveBin_init_def)
next
  let ?ps = "points b @ [\<lparr>brightness = br, weight = w, point_timestamp = ts\<rparr>]"
  let ?k = "min_weight_idx ?ps"
  have ne: "?ps \<noteq> []" by simp
  have k: "?k < length ?ps" by (rule min_weight_idx_props(1)[OF ne])
  have least: "\<forall>p \<in> set ?ps. weight (?ps ! ?k) \<le> weight p"
    using min_weight_idx_props(2)[OF ne] by (metis in_set_conv_nth)
  have first: "\<forall>j<?k. weight (?ps ! ?k) < weight (?ps ! j)"
    by (rule min_weight_idx_props(3)[OF ne])
  show "let ps = ?ps; k = min_weight_idx ps
       in if int (length ps) > max_points b
          then k < length ps
               \<and> points (update b br w ts) = take k ps @ drop (Suc k) ps
               \<and> (\<forall>p \<in> set ps. weight (ps ! k) \<le> weight p)
               \<and> (\<forall>j<k. weight (ps ! k) < weight (ps ! j))
               \<and> total_weight (update b br w ts) = total_weight b + w - weight (ps ! k)
          else points (update b br w ts) = ps
               \<and> total_weight (update b br w ts) = total_weight b + w"
  proof (cases "int (length ?ps) > max_points b")
    case True
    then have ev: "int (length (points b)) + 1 > max_points b" by simp
    have "points (update b br w ts) = take ?k ?ps @ drop (Suc ?k) ?ps"
      by (simp add: update_evict[OF ev] pop_def)
    moreover have "total_weight (update b br w ts) = total_weight b + w - weight (?ps ! ?k)"
      by (simp add: update_evict[OF ev])
    ultimately show ?thesis unfolding Let_def using True k least first by presburger
  next
    case False
    then have ne: "\<not> int (length (points b)) + 1 > max_points b" by simp
    show ?thesis unfolding Let_def using False by (simp add: update_no_evict[OF ne])
  qed
qed

theorem update_capacity_and_eviction_witness:
  "int (length (points \<lparr>min_value = 0, max_value = 10,
        points = [\<lparr>brightness = 1, weight = 1/2, point_timestamp = 0\<rparr>,
                  \<lparr>brightness = 2, weight = 3/10, point_timestamp = 1\<rparr>],
        total_weight = 4/5, max_points = 2\<rparr>)) \<le> 2
   \<and> (0::int) \<le> 2
   \<and> update \<lparr>min_value = 0, max_value = 10,
        points = [\<lparr>brightness = 1, weight = 1/2, point_timestamp = 0\<rparr>,
                  \<lparr>brightness = 2, weight = 3/10, point_timestamp = 1\<rparr>],
        total_weight = 4/5, max_points = 2\<rparr> 3 (3/10) 2
     = \<lparr>min_value = 0, max_value = 10,
        points = [\<lparr>brightness = 1, weight = 1/2, point_timestamp = 0\<rparr>,
                  \<lparr>brightness = 3, weight = 3/10, point_timestamp = 2\<rparr>],
        total_weight = 4/5, max_points = 2\<rparr>
   \<and> min_weight_idx [\<lparr>brightness = 1, weight = 1/2, point_timestamp = 0\<rparr>,
                  \<lparr>brightness = 2, weight = 3/10, point_timestamp = 1\<rparr>,
                  \<lparr>brightness = 3, weight = 3/10, point_timestamp = 2\<rparr>] = 1
   \<and> length (points (updates (AdaptiveBin_init 0 10 2)
         [(1, 1/2, 0), (2, 3/10, 1), (3, 3/10, 2)])) \<le> 2"
  using update_capacity_and_eviction
    [of "\<lparr>min_value = 0, max_value = 10,
        points = [\<lparr>brightness = 1, weight = 1/2, point_timestamp = 0\<rparr>,
                  \<lparr>brightness = 2, weight = 3/10, point_timestamp = 1\<rparr>],
        total_weight = 4/5, max_points = 2\<rparr>" 3 "3/10" 2 2 0 10
        "[(1, 1/2, 0), (2, 3/10, 1), (3, 3/10, 2)]"]
  by (simp add: update_def min_weight_idx_def pop_def updates_def AdaptiveBin_init_def Let_def)

section \<open>Properties of \<^verbatim>\<open>predict\<close>\<close>

subsection \<open>No step of \<^verbatim>\<open>predict\<close> raises\<close>

lemma bind_err_simps [simp]:
  "bind_err (Inr v) f = f v"
  "bind_err (Inl e) f = Inl e"
  by (simp_all add: bind_err_def)

lemma bind_err_Inr_iff:
  "bind_err r f = Inr y \<longleftrightarrow> (\<exists>v. r = Inr v \<and> f v = Inr y)"
  by (cases r) simp_all

lemma get_weighted_average_total:
  "\<exists>r. get_weighted_average b = Inr r"
  by (simp add: get_weighted_average_def py_truediv_def)

lemma py_getitem_nat:
  "k < length xs \<Longrightarrow> py_getitem xs (int k) = Inr (xs ! k)"
  by (simp add: py_getitem_def)

lemma neighbor_search_total:
  "k < length bins \<Longrightarrow> \<exists>r. neighbor_search bins k ds = Inr r"
proof (induction ds)
  case Nil
  then show ?case by simp
next
  case (Cons d ds)
  obtain r where r: "neighbor_search bins k ds = Inr r" using Cons by blast
  have prev: "\<exists>v. (if int k - int d \<ge> 0 then bind_err (py_getitem bins (int k - int d)) get_weighted_average
            else Inr None) = Inr v"
  proof (cases "int k - int d \<ge> 0")
    case True
    then have "py_getitem bins (int k - int d) = Inr (bins ! (k - d))"
      using Cons.prems by (auto simp: py_getitem_def nat_diff_distrib)
    then show ?thesis using True get_weighted_average_total[of "bins ! (k - d)"]
      by auto
  next
    case False
    then show ?thesis by simp
  qed
  have nxt: "\<exists>v. (if int k + int d < int (length bins)
                     then bind_err (py_getitem bins (int k + int d)) get_weighted_average
                     else Inr None) = Inr v"
  proof (cases "int k + int d < int (length bins)")
    case True
    then have "py_getitem bins (int k + int d) = Inr (bins ! (k + d))"
      by (auto simp: py_getitem_def nat_add_distrib)
    then show ?thesis using True get_weighted_average_total[of "bins ! (k + d)"]
      by auto
  next
    case False
    then show ?thesis by simp
  qed
  from prev nxt r show ?case
    by (auto simp: Let_def split: option.splits)
qed

lemma predict_find_bin_Some:
  "predict_find_bin bs i n x = Some (k, b) \<Longrightarrow>
     i \<le> k \<and> k < i + length bs \<and> b = bs ! (k - i)
     \<and> ((real_of_int (min_value b) \<le> x \<and> x < real_of_int (max_value b))
         \<or> (Suc k = n \<and> x \<ge> real_of_int (min_value b)))"
proof (induction bs arbitrary: i)
  case Nil
  then show ?case by simp
next
  case (Cons a bs)
  show ?case
  proof (cases "(real_of_int (min_value a) \<le> x \<and> x < real_of_int (max_value a))
            \<or> (Suc i = n \<and> x \<ge> real_of_int (min_value a))")
    case True
    then have "k = i" "b = a" using Cons.prems by (auto simp: Let_def)
    then show ?thesis using True by auto
  next
    case False
    then have "predict_find_bin bs (Suc i) n x = Some (k, b)"
      using Cons.prems by (auto simp: Let_def)
    from Cons.IH[OF this] show ?thesis by (auto simp: nth_Cons')
  qed
qed

lemma py_getitem_pred:
  "0 < k \<Longrightarrow> k < length xs \<Longrightarrow> py_getitem xs (int k - 1) = Inr (xs ! (k - 1))"
  by (auto simp: py_getitem_def nat_diff_distrib)

lemma py_getitem_succ:
  "int k < int (length xs) - 1 \<Longrightarrow> py_getitem xs (int k + 1) = Inr (xs ! (k + 1))"
  by (auto simp: py_getitem_def nat_add_distrib)

lemma neighbor_weight_total:
  "\<exists>r. (case np of None \<Rightarrow> Inr (None, 0)
         | Some v \<Rightarrow> bind_err (py_truediv a (0.2 :: real)) (\<lambda>iw. Inr (Some (f v), iw)))
       = (Inr r :: py_error + (real option \<times> real))"
  by (cases np) (simp_all add: py_truediv_def)

lemma interpolation_neighbor_total:
  assumes k: "k < length bins"
  shows "\<exists>r. interpolation_neighbor bins k pos tf af = Inr r"
proof (cases "pos < 0.2 \<and> k > 0")
  case True
  obtain r where r: "get_weighted_average (bins ! (k - 1)) = Inr r"
    using get_weighted_average_total by blast
  have g: "py_getitem bins (int k - 1) = Inr (bins ! (k - 1))"
    using True k by (simp add: py_getitem_pred)
  have "interpolation_neighbor bins k pos tf af =
        (case r of None \<Rightarrow> Inr (None, 0)
         | Some v \<Rightarrow> bind_err (py_truediv (0.2 - pos) 0.2) (\<lambda>iw. Inr (Some (v * (tf * af)), iw)))"
    unfolding interpolation_neighbor_def Let_def using True by (simp only: simp_thms if_True g bind_err_simps r)
  then show ?thesis using neighbor_weight_total[where np=r and a="0.2 - pos" and f="\<lambda>v. v * (tf * af)"] by simp
next
  case False
  note F = False
  show ?thesis
  proof (cases "pos > 1 - 0.2 \<and> int k < int (length bins) - 1")
    case True
    obtain r where r: "get_weighted_average (bins ! (k + 1)) = Inr r"
      using get_weighted_average_total by blast
    have g: "py_getitem bins (int k + 1) = Inr (bins ! (k + 1))"
      using True by (simp add: py_getitem_succ)
    have "interpolation_neighbor bins k pos tf af =
        (case r of None \<Rightarrow> Inr (None, 0)
         | Some v \<Rightarrow> bind_err (py_truediv (pos - (1 - 0.2)) 0.2)
                       (\<lambda>iw. Inr (Some (v * (tf * af)), iw)))"
      unfolding interpolation_neighbor_def Let_def using True F
      by (simp only: simp_thms if_True if_False g bind_err_simps r)
    then show ?thesis
      using neighbor_weight_total[where np=r and a="pos - (1 - 0.2)" and f="\<lambda>v. v * (tf * af)"] by simp
  next
    case False
    have "interpolation_neighbor bins k pos tf af = Inr (None, 0)"
      unfolding interpolation_neighbor_def Let_def using False F
      by (simp only: simp_thms if_False)
    then show ?thesis by (rule exI)
  qed
qed

lemma bind_err_total:
  assumes "\<exists>v. r = Inr v" and "\<And>v. \<exists>y. f v = Inr y"
  shows "\<exists>y. bind_err r f = Inr y"
  using assms by auto

lemma base_prediction_total:
  assumes "k < length bins"
  shows "\<exists>r. base_prediction bins k b = Inr r"
proof -
  obtain own where own: "get_weighted_average b = Inr own"
    using get_weighted_average_total by blast
  obtain nb where nb: "neighbor_search bins k [1..<length bins] = Inr nb"
    using neighbor_search_total[OF assms] by blast
  show ?thesis
  proof (cases own)
    case None
    then show ?thesis unfolding base_prediction_def own using nb by simp
  next
    case (Some v)
    then show ?thesis unfolding base_prediction_def own by simp
  qed
qed

lemma position_in_bin_total: "\<exists>p. position_in_bin b x = Inr p"
proof (cases "real_of_int (max_value b - min_value b) > 0")
  case True
  then show ?thesis by (simp add: position_in_bin_def py_truediv_def)
next
  case False
  then have "position_in_bin b x = Inr 0.5" by (simp add: position_in_bin_def)
  then show ?thesis by (rule exI)
qed

lemma adjust_and_interpolate_total:
  assumes "k < length bins"
  shows "\<exists>r. adjust_and_interpolate lh bins k b x ts act mp = Inr r"
proof -
  obtain pos where pos: "position_in_bin b x = Inr pos"
    using position_in_bin_total by blast
  obtain np iw where nb: "interpolation_neighbor bins k pos
      (if is_day (from_timestamp lh ts) then 1 else 0.8) (if act then 1 else 0.9) = Inr (np, iw)"
    using interpolation_neighbor_total[OF assms] by (metis surj_pair)
  show ?thesis unfolding adjust_and_interpolate_def Let_def pos bind_err_simps nb prod.case
    by (rule exI) (rule refl)
qed

lemma interpolated_prediction_total:
  "\<exists>r. interpolated_prediction lh bins ambient ts act = Inr r"
proof (cases "predict_find_bin bins 0 (length bins) (real_of_int ambient)")
  case None
  then show ?thesis by (simp add: interpolated_prediction_def)
next
  case (Some kb)
  obtain k b where kb: "kb = (k, b)" by (cases kb) auto
  from predict_find_bin_Some[OF Some[unfolded kb]] have k: "k < length bins" by simp
  obtain found where found: "base_prediction bins k b = Inr found"
    using base_prediction_total[OF k] by blast
  show ?thesis
  proof (cases found)
    case None
    then show ?thesis using Some kb found by (simp add: interpolated_prediction_def)
  next
    case (Some mp)
    obtain v where "adjust_and_interpolate lh bins k b (real_of_int ambient) ts act mp = Inr v"
      using adjust_and_interpolate_total[OF k] by blast
    then show ?thesis
      using \<open>predict_find_bin bins 0 (length bins) (real_of_int ambient) = Some kb\<close> kb found Some
      by (simp add: interpolated_prediction_def)
  qed
qed

lemma deque_append_nonempty: "deque_append xs a \<noteq> []"
  by (simp add: deque_append_def Let_def)

lemma predict_cases:
  "(interpolated_prediction lh (ambient_bins m) ambient ts act = Inr None
      \<and> predict lh m ambient ts act = Inr (None, m))
   \<or> (\<exists>a. interpolated_prediction lh (ambient_bins m) ambient ts act = Inr (Some a)
        \<and> predict lh m ambient ts act =
            Inr (Some (max 0 (min 100 (sum_list (deque_append (last_predictions m) a)
                                        / real (length (deque_append (last_predictions m) a))))),
                 m\<lparr>last_predictions := deque_append (last_predictions m) a\<rparr>))"
proof -
  obtain r where r: "interpolated_prediction lh (ambient_bins m) ambient ts act = Inr r"
    using interpolated_prediction_total by blast
  show ?thesis
  proof (cases r)
    case None
    then show ?thesis using r by (simp add: predict_def)
  next
    case (Some a)
    have "length (deque_append (last_predictions m) a) \<noteq> 0"
      using deque_append_nonempty by simp
    then show ?thesis using r Some
      by (simp add: predict_def Let_def py_truediv_def deque_append_nonempty)
  qed
qed

section \<open>The sample inputs, evaluated\<close>

lemma fresh_model_init:
  "EnhancedBrightnessModel_init 0 100 2 0.3 0.4 0.3 = Inr fresh_model"
  by (simp add: EnhancedBrightnessModel_init_def fresh_model_def AdaptiveBin_init_def Let_def upto.simps)

lemma trained_model_train:
  "train utc_hour fresh_model (manual_point 0 10 20) 0 True = Inr trained_model"
  by (simp add: train_def fresh_model_def trained_model_def manual_point_def
      find_last_point_in_bins_def is_outlier_def calculate_weight_def
      recency_weight_component_def py_truediv_def
      from_timestamp_def utc_hour_def update_def Let_def)

lemma predict_fresh:
  "predict utc_hour fresh_model 10 0 True = Inr (None, fresh_model)"
  by (simp add: predict_def interpolated_prediction_def base_prediction_def fresh_model_def
      get_weighted_average_def py_getitem_def Let_def)

lemma predict_trained:
  "predict utc_hour trained_model 10 0 True
   = Inr (Some 16, trained_model\<lparr>last_predictions := [16]\<rparr>)"
  by (simp add: predict_def interpolated_prediction_def base_prediction_def trained_model_def
      adjust_and_interpolate_def position_in_bin_def interpolation_neighbor_def
      apply_interpolation_def deque_append_def from_timestamp_def utc_hour_def
      get_weighted_average_def py_getitem_def py_truediv_def Let_def)

lemma predict_trained_again:
  "predict utc_hour (trained_model\<lparr>last_predictions := [16]\<rparr>) 10 0 True
   = Inr (Some 16, trained_model\<lparr>last_predictions := [16, 16]\<rparr>)"
  by (simp add: predict_def interpolated_prediction_def base_prediction_def trained_model_def
      adjust_and_interpolate_def position_in_bin_def interpolation_neighbor_def
      apply_interpolation_def deque_append_def from_timestamp_def utc_hour_def
      get_weighted_average_def py_getitem_def py_truediv_def Let_def)

lemma predict_trained_shifted:
  "predict utc_hour (trained_model\<lparr>last_predictions := [50]\<rparr>) 10 0 True
   = Inr (Some 33, trained_model\<lparr>last_predictions := [50, 16]\<rparr>)"
  by (simp add: predict_def interpolated_prediction_def base_prediction_def trained_model_def
      adjust_and_interpolate_def position_in_bin_def interpolation_neighbor_def
      apply_interpolation_def deque_append_def from_timestamp_def utc_hour_def
      get_weighted_average_def py_getitem_def py_truediv_def Let_def)


lemma predict_trained_shifted_again:
  "predict utc_hour (trained_model\<lparr>last_predictions := [50, 16]\<rparr>) 10 0 True
   = Inr (Some (82 / 3), trained_model\<lparr>last_predictions := [50, 16, 16]\<rparr>)"
  by (simp add: predict_def interpolated_prediction_def base_prediction_def trained_model_def
      adjust_and_interpolate_def position_in_bin_def interpolation_neighbor_def
      apply_interpolation_def deque_append_def from_timestamp_def utc_hour_def
      get_weighted_average_def py_getitem_def py_truediv_def Let_def)

section \<open>The claims about \<^verbatim>\<open>predict\<close> and \<^verbatim>\<open>train\<close>\<close>

lemma predict_frame:
  assumes "predict lh m ambient ts act = Inr (r, m')"
  shows "ambient_bins m' = ambient_bins m" "time_weight m' = time_weight m"
    "recency_weight m' = recency_weight m" "activity_weight m' = activity_weight m"
    "max_age_seconds m' = max_age_seconds m"
  using predict_cases[of lh m ambient ts act] assms by auto

text \<open>
  Claim C10. When \<^verbatim>\<open>predict\<close> returns \<open>None\<close> the model is returned as it was, window
  included. A call that returns a number changes the window only, by appending one
  value to it.
\<close>

theorem predict_absent_leaves_state:
  "(predict lh m ambient ts act = Inr (None, m') \<longrightarrow> m' = m)
   \<and> (predict lh m ambient ts act = Inr (Some v, m') \<longrightarrow>
        (\<exists>a. m' = m\<lparr>last_predictions := deque_append (last_predictions m) a\<rparr>))"
  using predict_cases[of lh m ambient ts act] by auto

theorem predict_absent_leaves_state_witness:
  "predict utc_hour fresh_model 10 0 True = Inr (None, fresh_model)
   \<and> predict utc_hour trained_model 10 0 True
       = Inr (Some 16, trained_model\<lparr>last_predictions := [16]\<rparr>)
   \<and> (\<exists>a. trained_model\<lparr>last_predictions := [16]\<rparr>
          = trained_model\<lparr>last_predictions := deque_append (last_predictions trained_model) a\<rparr>)"
  using predict_absent_leaves_state[of utc_hour fresh_model 10 0 True fresh_model]
    predict_absent_leaves_state[of utc_hour trained_model 10 0 True
      "trained_model\<lparr>last_predictions := [16]\<rparr>" 16]
    predict_fresh predict_trained
  by simp

text \<open>
  Claim C6. \<^verbatim>\<open>train\<close> on an observation that is not a manual adjustment returns the
  model unchanged: bins, points, weights and window.
\<close>

theorem train_not_manual_noop:
  "\<not> is_manual_adjustment data_point \<Longrightarrow> train lh m data_point now act = Inr m"
  by (simp add: train_def)

theorem train_not_manual_noop_witness:
  "\<not> is_manual_adjustment ((manual_point 0 10 20)\<lparr>is_manual_adjustment := False\<rparr>)
   \<and> train utc_hour trained_model ((manual_point 0 10 20)\<lparr>is_manual_adjustment := False\<rparr>) 5 True
       = Inr trained_model"
  using train_not_manual_noop[of "(manual_point 0 10 20)\<lparr>is_manual_adjustment := False\<rparr>"
      utc_hour trained_model 5 True]
  by (simp add: manual_point_def)

lemma clamped_mean_deque:
  "max 0 (min 100 (sum_list w / real (length w))) = clamped_mean w"
  by (simp add: clamped_mean_def)

lemma predict_twice_general:
  "\<exists>r1 r2. predict_twice lh m ambient ts act = Inr (r1, r2)
     \<and> ((r1 = None \<and> r2 = None)
        \<or> (\<exists>a. r1 = Some (clamped_mean (deque_append (last_predictions m) a))
              \<and> r2 = Some (clamped_mean
                           (deque_append (deque_append (last_predictions m) a) a))))"
proof -
  from predict_cases[of lh m ambient ts act]
  show ?thesis
  proof
    assume "interpolated_prediction lh (ambient_bins m) ambient ts act = Inr None
             \<and> predict lh m ambient ts act = Inr (None, m)"
    then show ?thesis by (simp add: predict_twice_def)
  next
    assume "\<exists>a. interpolated_prediction lh (ambient_bins m) ambient ts act = Inr (Some a)
        \<and> predict lh m ambient ts act =
            Inr (Some (max 0 (min 100 (sum_list (deque_append (last_predictions m) a)
                                        / real (length (deque_append (last_predictions m) a))))),
                 m\<lparr>last_predictions := deque_append (last_predictions m) a\<rparr>)"
    then obtain a where a: "interpolated_prediction lh (ambient_bins m) ambient ts act = Inr (Some a)"
      and p1: "predict lh m ambient ts act =
            Inr (Some (clamped_mean (deque_append (last_predictions m) a)),
                 m\<lparr>last_predictions := deque_append (last_predictions m) a\<rparr>)"
      unfolding clamped_mean_deque by blast
    let ?m1 = "m\<lparr>last_predictions := deque_append (last_predictions m) a\<rparr>"
    have "interpolated_prediction lh (ambient_bins ?m1) ambient ts act = Inr (Some a)"
      using a by simp
    with predict_cases[of lh ?m1 ambient ts act]
    have p2: "predict lh ?m1 ambient ts act =
            Inr (Some (clamped_mean (deque_append (deque_append (last_predictions m) a) a)),
                 ?m1\<lparr>last_predictions := deque_append (deque_append (last_predictions m) a) a\<rparr>)"
      unfolding clamped_mean_deque by auto
    show ?thesis unfolding predict_twice_def p1 bind_err_simps prod.case p2 by blast
  qed
qed

text \<open>
  Claim C8, as amended. \<^verbatim>\<open>predict\<close> is stateful through the window, but two consecutive
  calls with the same arguments need not return different values. Either both return
  \<open>None\<close>, or both append the same value \<open>a\<close> to the window and return the clamped
  mean of the window as it then stands: after one append for the first call, after two
  for the second. The two results differ in some states (the third conjunct: 33, then
  82/3, when the window held 50 before).
\<close>

theorem predict_twice_same_value_appended:
  "(\<exists>r1 r2. predict_twice lh m ambient ts act = Inr (r1, r2)
     \<and> ((r1 = None \<and> r2 = None)
        \<or> (\<exists>a. r1 = Some (clamped_mean (deque_append (last_predictions m) a))
              \<and> r2 = Some (clamped_mean
                           (deque_append (deque_append (last_predictions m) a) a)))))
   \<and> predict_twice utc_hour (trained_model\<lparr>last_predictions := [50]\<rparr>) 10 0 True
       = Inr (Some 33, Some (82 / 3))"
  using predict_twice_general[of lh m ambient ts act]
  by (simp add: predict_twice_def predict_trained_shifted predict_trained_shifted_again)

text \<open>
  Claim C8 as stated fails: on the untrained model both calls return \<open>None\<close>, and on
  the model trained with one point both return 16 (the window is \<open>[16]\<close>, then
  \<open>[16, 16]\<close>).
\<close>

theorem predict_twice_counterexample:
  "predict_twice utc_hour fresh_model 10 0 True = Inr (None, None)
   \<and> predict_twice utc_hour trained_model 10 0 True = Inr (Some 16, Some 16)"
  by (simp add: predict_twice_def predict_fresh predict_trained predict_trained_again)

section \<open>Model operations and the bookkeeping of the bins\<close>

lemma adapt_one_frame:
  "points (fst (adapt_one al n i b)) = points b"
  "total_weight (fst (adapt_one al n i b)) = total_weight b"
  "max_points (fst (adapt_one al n i b)) = max_points b"
  by (simp_all add: adapt_one_def Let_def split: sum.splits)

lemma adapt_loop_length: "length (adapt_loop al n i bs) = length bs"
  by (induction bs arbitrary: i) (simp_all split: prod.splits option.splits)

lemma adapt_loop_frame:
  "map points (adapt_loop al n i bs) = map points bs"
  "map total_weight (adapt_loop al n i bs) = map total_weight bs"
  "map max_points (adapt_loop al n i bs) = map max_points bs"
proof (induction bs arbitrary: i)
  case Nil
  { case 1 show ?case by simp }
  { case 2 show ?case by simp }
  { case 3 show ?case by simp }
next
  case (Cons b bs)
  { case 1 show ?case using Cons(1)[of "i + 1"] adapt_one_frame(1)[of al n i b]
      by (auto split: prod.splits option.splits) }
  { case 2 show ?case using Cons(2)[of "i + 1"] adapt_one_frame(2)[of al n i b]
      by (auto split: prod.splits option.splits) }
  { case 3 show ?case using Cons(3)[of "i + 1"] adapt_one_frame(3)[of al n i b]
      by (auto split: prod.splits option.splits) }
qed

lemma total_weight_exact_cong:
  "points b' = points b \<Longrightarrow> total_weight b' = total_weight b \<Longrightarrow>
   total_weight_exact b' = total_weight_exact b"
  by (simp add: total_weight_exact_def)

lemma list_all_total_weight_exact_cong:
  assumes "map points bs' = map points bs" "map total_weight bs' = map total_weight bs"
  shows "list_all total_weight_exact bs' = list_all total_weight_exact bs"
proof -
  have len: "length bs' = length bs" using assms(1) by (metis length_map)
  have "\<And>i. i < length bs \<Longrightarrow> total_weight_exact (bs' ! i) = total_weight_exact (bs ! i)"
  proof -
    fix i assume i: "i < length bs"
    have "points (bs' ! i) = points (bs ! i)"
      using assms(1) i len by (metis nth_map)
    moreover have "total_weight (bs' ! i) = total_weight (bs ! i)"
      using assms(2) i len by (metis nth_map)
    ultimately show "total_weight_exact (bs' ! i) = total_weight_exact (bs ! i)"
      by (rule total_weight_exact_cong)
  qed
  then show ?thesis using len by (simp add: list_all_length)
qed

lemma adapt_bins_total_weight_exact:
  "list_all total_weight_exact (ambient_bins (adapt_bins m hist))
   = list_all total_weight_exact (ambient_bins m)"
  by (auto simp: adapt_bins_def Let_def intro!: list_all_total_weight_exact_cong adapt_loop_frame)

lemma train_find_bin_Some:
  "train_find_bin bs i n x = Some k \<Longrightarrow>
     i \<le> k \<and> k < i + length bs
     \<and> ((min_value (bs ! (k - i)) \<le> x \<and> x < max_value (bs ! (k - i)))
         \<or> (Suc k = n \<and> x \<ge> min_value (bs ! (k - i))))"
proof (induction bs arbitrary: i)
  case Nil
  then show ?case by simp
next
  case (Cons a bs)
  show ?case
  proof (cases "(min_value a \<le> x \<and> x < max_value a) \<or> (Suc i = n \<and> x \<ge> min_value a)")
    case True
    then have "k = i" using Cons.prems by (auto simp: Let_def)
    then show ?thesis using True by auto
  next
    case False
    then have "train_find_bin bs (Suc i) n x = Some k"
      using Cons.prems by (auto simp: Let_def)
    from Cons.IH[OF this] show ?thesis by (auto simp: nth_Cons')
  qed
qed

lemma train_cases:
  assumes "train lh m dp now act = Inr m'"
  shows "m' = m
       \<or> (\<exists>k w. k < length (ambient_bins m)
            \<and> train_find_bin (ambient_bins m) 0 (length (ambient_bins m)) (ambient_light dp) = Some k
            \<and> calculate_weight m (from_timestamp lh now) (from_timestamp lh (timestamp dp))
                 (max 0 (now - timestamp dp)) act = Inr w
            \<and> m' = m\<lparr>ambient_bins :=
                       (ambient_bins m)[k := update (ambient_bins m ! k) (screen_brightness dp) w
                                                (timestamp dp)]\<rparr>)"
proof (cases "\<not> is_manual_adjustment dp \<or> is_outlier dp (find_last_point_in_bins m)")
  case True
  then have "train lh m dp now act = Inr m" by (auto simp: train_def Let_def)
  then show ?thesis using assms by simp
next
  case False
  then have t: "train lh m dp now act =
     bind_err (calculate_weight m (from_timestamp lh now) (from_timestamp lh (timestamp dp))
                 (max 0 (now - timestamp dp)) act)
       (\<lambda>w. case train_find_bin (ambient_bins m) 0 (length (ambient_bins m)) (ambient_light dp) of
               Some k \<Rightarrow> Inr (m\<lparr>ambient_bins :=
                       (ambient_bins m)[k := update (ambient_bins m ! k) (screen_brightness dp) w
                                                (timestamp dp)]\<rparr>)
             | None \<Rightarrow> Inr m)"
    by (simp add: train_def Let_def)
  from assms[unfolded t bind_err_Inr_iff] obtain w where
    w: "calculate_weight m (from_timestamp lh now) (from_timestamp lh (timestamp dp))
                 (max 0 (now - timestamp dp)) act = Inr w"
    and r: "(case train_find_bin (ambient_bins m) 0 (length (ambient_bins m)) (ambient_light dp) of
               Some k \<Rightarrow> Inr (m\<lparr>ambient_bins :=
                       (ambient_bins m)[k := update (ambient_bins m ! k) (screen_brightness dp) w
                                                (timestamp dp)]\<rparr>)
             | None \<Rightarrow> Inr m) = (Inr m' :: py_error + EnhancedBrightnessModel)"
    by blast
  show ?thesis
  proof (cases "train_find_bin (ambient_bins m) 0 (length (ambient_bins m)) (ambient_light dp)")
    case None
    then show ?thesis using r by simp
  next
    case (Some k)
    from train_find_bin_Some[OF Some] have "k < length (ambient_bins m)" by simp
    then show ?thesis using r Some w by auto
  qed
qed

lemma train_total_weight_exact:
  assumes "train lh m dp now act = Inr m'" "list_all total_weight_exact (ambient_bins m)"
  shows "list_all total_weight_exact (ambient_bins m')"
  using train_cases[OF assms(1)] assms(2)
  by (auto simp: list_all_length nth_list_update update_total_weight_exact)

lemma train_history_total_weight_exact:
  "train_history lh m ps = Inr m' \<Longrightarrow> list_all total_weight_exact (ambient_bins m) \<Longrightarrow>
   list_all total_weight_exact (ambient_bins m')"
proof (induction ps arbitrary: m)
  case Nil
  then show ?case by simp
next
  case (Cons p ps)
  from Cons.prems(1) obtain m1 where m1: "train lh m p (timestamp p) True = Inr m1"
    and rest: "train_history lh m1 ps = Inr m'"
    by (auto simp: bind_err_Inr_iff)
  from train_total_weight_exact[OF m1 Cons.prems(2)] Cons.IH[OF rest] show ?case by blast
qed

lemma load_total_weight_exact:
  "load_historical_data lh m ds now act = Inr m' \<Longrightarrow>
   list_all total_weight_exact (ambient_bins m) \<Longrightarrow>
   list_all total_weight_exact (ambient_bins m')"
  unfolding load_historical_data_def Let_def
  using train_history_total_weight_exact adapt_bins_total_weight_exact by blast

lemma cleanup_total_weight_exact:
  "list_all total_weight_exact (ambient_bins (cleanup m now))"
  by (simp add: cleanup_def list_all_iff bin_cleanup_total_weight_exact)

lemma init_model_total_weight_exact:
  "EnhancedBrightnessModel_init lo hi n tw rw aw = Inr m \<Longrightarrow>
   list_all total_weight_exact (ambient_bins m)"
  by (auto simp: EnhancedBrightnessModel_init_def Let_def list_all_iff init_total_weight_exact
      split: if_splits)

text \<open>In exact arithmetic \<open>total_weight\<close> is the sum of the weights of the points in every
  bin of every model that the operations produce.\<close>

lemma model_total_weight_exact:
  "(EnhancedBrightnessModel_init lo hi n tw rw aw = Inr m0 \<longrightarrow>
        list_all total_weight_exact (ambient_bins m0))
   \<and> (list_all total_weight_exact (ambient_bins m) \<longrightarrow>
        (train lh m dp now act = Inr m1 \<longrightarrow> list_all total_weight_exact (ambient_bins m1))
        \<and> (load_historical_data lh m hist now act = Inr m2 \<longrightarrow>
             list_all total_weight_exact (ambient_bins m2))
        \<and> (predict lh m x now act = Inr (r, m3) \<longrightarrow>
             list_all total_weight_exact (ambient_bins m3))
        \<and> list_all total_weight_exact (ambient_bins (adapt_bins m hist)))
   \<and> list_all total_weight_exact (ambient_bins (cleanup m now))"
proof (intro conjI impI)
  show "list_all total_weight_exact (ambient_bins (cleanup m now))"
    by (rule cleanup_total_weight_exact)
next
  assume "EnhancedBrightnessModel_init lo hi n tw rw aw = Inr m0"
  then show "list_all total_weight_exact (ambient_bins m0)"
    by (rule init_model_total_weight_exact)
next
  assume inv: "list_all total_weight_exact (ambient_bins m)"
  show "list_all total_weight_exact (ambient_bins (adapt_bins m hist))"
    using inv by (simp add: adapt_bins_total_weight_exact)
  { assume "train lh m dp now act = Inr m1"
    then show "list_all total_weight_exact (ambient_bins m1)"
      using inv by (rule train_total_weight_exact) }
  { assume "load_historical_data lh m hist now act = Inr m2"
    then show "list_all total_weight_exact (ambient_bins m2)"
      using inv by (rule load_total_weight_exact) }
  { assume "predict lh m x now act = Inr (r, m3)"
    then show "list_all total_weight_exact (ambient_bins m3)"
      using inv by (simp add: predict_frame(1)) }
qed

section \<open>\<^verbatim>\<open>cleanup\<close>\<close>

text \<open>
  Claim C7. \<^verbatim>\<open>cleanup\<close> of a bin keeps, in their order and as they are, the points that
  are not older than \<open>ma\<close> (it removes exactly those with \<open>now - timestamp > ma\<close>), sets
  \<open>total_weight\<close> to the sum of the weights of the points kept, and changes nothing
  else of the bin. \<^verbatim>\<open>cleanup\<close> of the model does this to every bin with the model's
  \<open>max_age_seconds\<close> and changes nothing else of the model.
\<close>

theorem cleanup_removes_exactly_expired:
  "points (bin_cleanup b now ma)
     = filter (\<lambda>p. \<not> now - point_timestamp p > ma) (points b)
   \<and> total_weight (bin_cleanup b now ma)
     = sum_list (map weight (filter (\<lambda>p. \<not> now - point_timestamp p > ma) (points b)))
   \<and> min_value (bin_cleanup b now ma) = min_value b
   \<and> max_value (bin_cleanup b now ma) = max_value b
   \<and> max_points (bin_cleanup b now ma) = max_points b
   \<and> ambient_bins (cleanup m now)
     = map (\<lambda>b. bin_cleanup b now (max_age_seconds m)) (ambient_bins m)
   \<and> cleanup m now = m\<lparr>ambient_bins := ambient_bins (cleanup m now)\<rparr>"
  by (simp add: bin_cleanup_eq cleanup_def not_less)

section \<open>\<^verbatim>\<open>load_historical_data\<close>\<close>

lemma recency_component_age_zero:
  "max_age_seconds m \<noteq> 0 \<Longrightarrow> recency_weight_component m 0 = Inr (recency_weight m)"
  by (simp add: recency_weight_component_def py_truediv_def)

lemma calculate_weight_total:
  "max_age_seconds m \<noteq> 0 \<Longrightarrow> \<exists>w. calculate_weight m cf pf td act = Inr w"
  by (simp add: calculate_weight_def recency_weight_component_def py_truediv_def Let_def)

lemma calculate_weight_own_time:
  "max_age_seconds m \<noteq> 0 \<Longrightarrow>
   calculate_weight m f f 0 True = Inr (time_weight m + recency_weight m + activity_weight m)"
  by (simp add: calculate_weight_def recency_component_age_zero Let_def)

lemma train_total:
  assumes "max_age_seconds m \<noteq> 0"
  shows "\<exists>m'. train lh m dp now act = Inr m'"
proof -
  obtain w where "calculate_weight m (from_timestamp lh now) (from_timestamp lh (timestamp dp))
      (max 0 (now - timestamp dp)) act = Inr w"
    using calculate_weight_total[OF assms] by blast
  then show ?thesis by (simp add: train_def Let_def split: option.splits)
qed

lemma train_at_own_time:
  assumes "max_age_seconds m \<noteq> 0"
  shows "train lh m p (timestamp p) True =
     (if \<not> is_manual_adjustment p \<or> is_outlier p (find_last_point_in_bins m) then Inr m
      else case train_find_bin (ambient_bins m) 0 (length (ambient_bins m)) (ambient_light p) of
             None \<Rightarrow> Inr m
           | Some k \<Rightarrow>
               Inr (m\<lparr>ambient_bins :=
                      (ambient_bins m)
                        [k := update (ambient_bins m ! k) (screen_brightness p)
                                (time_weight m + recency_weight m + activity_weight m)
                                (timestamp p)]\<rparr>))"
  by (simp add: train_def Let_def calculate_weight_own_time[OF assms])

lemma map_update_same:
  "k < length xs \<Longrightarrow> (map f xs)[k := f (xs ! k)] = map f xs"
  by (simp add: list_update_same_conv)

lemma train_frame:
  assumes "train lh m dp now act = Inr m'"
  shows "max_age_seconds m' = max_age_seconds m" "time_weight m' = time_weight m"
    "recency_weight m' = recency_weight m" "activity_weight m' = activity_weight m"
    "last_predictions m' = last_predictions m"
    "length (ambient_bins m') = length (ambient_bins m)"
    "map min_value (ambient_bins m') = map min_value (ambient_bins m)"
    "map max_value (ambient_bins m') = map max_value (ambient_bins m)"
  using train_cases[OF assms] by (auto simp: map_update update_frame map_update_same)

lemma adapt_bins_frame:
  "max_age_seconds (adapt_bins m hist) = max_age_seconds m"
  "time_weight (adapt_bins m hist) = time_weight m"
  "recency_weight (adapt_bins m hist) = recency_weight m"
  "activity_weight (adapt_bins m hist) = activity_weight m"
  "last_predictions (adapt_bins m hist) = last_predictions m"
  "length (ambient_bins (adapt_bins m hist)) = length (ambient_bins m)"
  by (simp_all add: adapt_bins_def Let_def adapt_loop_length)

lemma train_history_total:
  "max_age_seconds m \<noteq> 0 \<Longrightarrow> \<exists>m'. train_history lh m ps = Inr m'"
proof (induction ps arbitrary: m)
  case Nil
  then show ?case by simp
next
  case (Cons p ps)
  obtain m1 where m1: "train lh m p (timestamp p) True = Inr m1"
    using train_total[OF Cons.prems] by blast
  have "max_age_seconds m1 \<noteq> 0" using train_frame(1)[OF m1] Cons.prems by simp
  from Cons.IH[OF this] show ?case by (simp add: m1)
qed

lemma load_historical_data_total:
  "max_age_seconds m \<noteq> 0 \<Longrightarrow> \<exists>m'. load_historical_data lh m ds now act = Inr m'"
  unfolding load_historical_data_def Let_def
  by (rule train_history_total) (simp add: adapt_bins_frame)

text \<open>
  Claim C9. \<^verbatim>\<open>load_historical_data\<close> first rebins with the whole history and then
  trains on the observations sorted by timestamp (ascending, each observation once, the
  order of equal timestamps kept), calling \<^verbatim>\<open>train\<close> with the observation's own
  timestamp as current time and \<open>is_active = True\<close>; its arguments
  \<open>current_timestamp\<close> and \<open>is_active\<close> are not used. In such a call the elapsed age
  is 0, the recency term of the weight is \<open>recency_weight\<close> itself, and an observation
  that is stored is stored with weight \<open>time_weight + recency_weight + activity_weight\<close>.
  With \<open>max_age_seconds \<noteq> 0\<close> (the constructor sets 604800) the load raises nothing.
\<close>

theorem load_historical_trains_at_own_timestamp:
  "load_historical_data lh m data now act
     = train_history lh (adapt_bins m data) (sort_key timestamp data)
   \<and> load_historical_data lh m data now act = load_historical_data lh m data now' act'
   \<and> sorted (map timestamp (sort_key timestamp data))
   \<and> mset (sort_key timestamp data) = mset data
   \<and> train_history lh m1 (p # ps)
       = bind_err (train lh m1 p (timestamp p) True) (\<lambda>m2. train_history lh m2 ps)
   \<and> max 0 (timestamp p - timestamp p) = 0
   \<and> (max_age_seconds m1 \<noteq> 0 \<longrightarrow>
        recency_weight_component m1 (max 0 (timestamp p - timestamp p)) = Inr (recency_weight m1)
        \<and> train lh m1 p (timestamp p) True =
            (if \<not> is_manual_adjustment p \<or> is_outlier p (find_last_point_in_bins m1)
             then Inr m1
             else case train_find_bin (ambient_bins m1) 0 (length (ambient_bins m1))
                         (ambient_light p) of
                    None \<Rightarrow> Inr m1
                  | Some k \<Rightarrow>
                      Inr (m1\<lparr>ambient_bins :=
                             (ambient_bins m1)
                               [k := update (ambient_bins m1 ! k) (screen_brightness p)
                                       (time_weight m1 + recency_weight m1 + activity_weight m1)
                                       (timestamp p)]\<rparr>)))
   \<and> (max_age_seconds m \<noteq> 0 \<longrightarrow> (\<exists>m'. load_historical_data lh m data now act = Inr m'))"
proof (intro conjI impI)
  show "load_historical_data lh m data now act
     = train_history lh (adapt_bins m data) (sort_key timestamp data)"
    by (simp add: load_historical_data_def)
  show "load_historical_data lh m data now act = load_historical_data lh m data now' act'"
    by (simp add: load_historical_data_def)
  show "sorted (map timestamp (sort_key timestamp data))" by simp
  show "mset (sort_key timestamp data) = mset data" by simp
  show "train_history lh m1 (p # ps)
       = bind_err (train lh m1 p (timestamp p) True) (\<lambda>m2. train_history lh m2 ps)"
    by simp
  show "max 0 (timestamp p - timestamp p) = 0" by simp
next
  assume "max_age_seconds m1 \<noteq> 0"
  then show "recency_weight_component m1 (max 0 (timestamp p - timestamp p))
             = Inr (recency_weight m1)"
    by (simp add: recency_component_age_zero)
next
  assume "max_age_seconds m1 \<noteq> 0"
  then show "train lh m1 p (timestamp p) True =
            (if \<not> is_manual_adjustment p \<or> is_outlier p (find_last_point_in_bins m1)
             then Inr m1
             else case train_find_bin (ambient_bins m1) 0 (length (ambient_bins m1))
                         (ambient_light p) of
                    None \<Rightarrow> Inr m1
                  | Some k \<Rightarrow>
                      Inr (m1\<lparr>ambient_bins :=
                             (ambient_bins m1)
                               [k := update (ambient_bins m1 ! k) (screen_brightness p)
                                       (time_weight m1 + recency_weight m1 + activity_weight m1)
                                       (timestamp p)]\<rparr>))"
    by (rule train_at_own_time)
next
  assume "max_age_seconds m \<noteq> 0"
  then show "\<exists>m'. load_historical_data lh m data now act = Inr m'"
    by (rule load_historical_data_total)
qed

lemma load_example:
  "load_historical_data utc_hour fresh_model
     [manual_point 7200 60 70, manual_point 3600 10 20] 99 False
   = Inr (fresh_model\<lparr>ambient_bins :=
        [\<lparr>min_value = 0, max_value = 50,
          points = [\<lparr>brightness = 20, weight = 1, point_timestamp = 3600\<rparr>],
          total_weight = 1, max_points = 50\<rparr>,
         \<lparr>min_value = 50, max_value = 100,
          points = [\<lparr>brightness = 70, weight = 1, point_timestamp = 7200\<rparr>],
          total_weight = 1, max_points = 50\<rparr>]\<rparr>)"
  by (simp add: load_historical_data_def adapt_bins_def train_def fresh_model_def
      manual_point_def find_last_point_in_bins_def is_outlier_def calculate_weight_def
      recency_weight_component_def py_truediv_def from_timestamp_def utc_hour_def update_def
      Let_def)

theorem load_historical_trains_at_own_timestamp_witness:
  "max_age_seconds fresh_model \<noteq> 0
   \<and> recency_weight_component fresh_model (max 0 (3600 - 3600)) = Inr (2 / 5)
   \<and> train utc_hour fresh_model (manual_point 3600 10 20) 3600 True
       = Inr (fresh_model\<lparr>ambient_bins :=
           [\<lparr>min_value = 0, max_value = 50,
             points = [\<lparr>brightness = 20, weight = 1, point_timestamp = 3600\<rparr>],
             total_weight = 1, max_points = 50\<rparr>,
            \<lparr>min_value = 50, max_value = 100, points = [], total_weight = 0,
             max_points = 50\<rparr>]\<rparr>)
   \<and> load_historical_data utc_hour fresh_model
         [manual_point 7200 60 70, manual_point 3600 10 20] 99 False
       = Inr (fresh_model\<lparr>ambient_bins :=
           [\<lparr>min_value = 0, max_value = 50,
             points = [\<lparr>brightness = 20, weight = 1, point_timestamp = 3600\<rparr>],
             total_weight = 1, max_points = 50\<rparr>,
            \<lparr>min_value = 50, max_value = 100,
             points = [\<lparr>brightness = 70, weight = 1, point_timestamp = 7200\<rparr>],
             total_weight = 1, max_points = 50\<rparr>]\<rparr>)"
  using load_historical_trains_at_own_timestamp
    [where m = fresh_model and ?m1.0 = fresh_model and lh = utc_hour
       and p = "manual_point 3600 10 20"
       and data = "[manual_point 7200 60 70, manual_point 3600 10 20]"
       and now = 99 and act = False]
    load_example
  by (simp add: fresh_model_def manual_point_def find_last_point_in_bins_def is_outlier_def
      update_def Let_def)

section \<open>Bins as a partition of the ambient range\<close>

lemma contiguous_nth:
  "contiguous bs \<longleftrightarrow> (\<forall>i. Suc i < length bs \<longrightarrow> max_value (bs ! i) = min_value (bs ! Suc i))"
proof (induction bs rule: contiguous.induct)
  case (1 a b bs)
  show ?case
  proof
    assume c: "contiguous (a # b # bs)"
    show "\<forall>i. Suc i < length (a # b # bs) \<longrightarrow>
              max_value ((a # b # bs) ! i) = min_value ((a # b # bs) ! Suc i)"
    proof (intro allI impI)
      fix i assume "Suc i < length (a # b # bs)"
      then show "max_value ((a # b # bs) ! i) = min_value ((a # b # bs) ! Suc i)"
        using c 1 by (cases i) auto
    qed
  next
    assume h: "\<forall>i. Suc i < length (a # b # bs) \<longrightarrow>
              max_value ((a # b # bs) ! i) = min_value ((a # b # bs) ! Suc i)"
    have "max_value a = min_value b" using h[rule_format, of 0] by simp
    moreover have "\<forall>i. Suc i < length (b # bs) \<longrightarrow>
              max_value ((b # bs) ! i) = min_value ((b # bs) ! Suc i)"
      using h[rule_format, of "Suc _"] by simp
    ultimately show "contiguous (a # b # bs)" using 1 by simp
  qed
qed simp_all

lemma non_overlapping_nth:
  "non_overlapping bs \<longleftrightarrow>
     (\<forall>i. Suc i < length bs \<longrightarrow> max_value (bs ! i) \<le> min_value (bs ! Suc i))"
proof (induction bs rule: non_overlapping.induct)
  case (1 a b bs)
  show ?case
  proof
    assume c: "non_overlapping (a # b # bs)"
    show "\<forall>i. Suc i < length (a # b # bs) \<longrightarrow>
              max_value ((a # b # bs) ! i) \<le> min_value ((a # b # bs) ! Suc i)"
    proof (intro allI impI)
      fix i assume "Suc i < length (a # b # bs)"
      then show "max_value ((a # b # bs) ! i) \<le> min_value ((a # b # bs) ! Suc i)"
        using c 1 by (cases i) auto
    qed
  next
    assume h: "\<forall>i. Suc i < length (a # b # bs) \<longrightarrow>
              max_value ((a # b # bs) ! i) \<le> min_value ((a # b # bs) ! Suc i)"
    have "max_value a \<le> min_value b" using h[rule_format, of 0] by simp
    moreover have "\<forall>i. Suc i < length (b # bs) \<longrightarrow>
              max_value ((b # bs) ! i) \<le> min_value ((b # bs) ! Suc i)"
      using h[rule_format, of "Suc _"] by simp
    ultimately show "non_overlapping (a # b # bs)" using 1 by simp
  qed
qed simp_all

lemma contiguous_non_overlapping: "contiguous bs \<Longrightarrow> non_overlapping bs"
  by (simp add: contiguous_nth non_overlapping_nth)

lemma well_formed_nth:
  "well_formed bs \<longleftrightarrow> (\<forall>i<length bs. min_value (bs ! i) \<le> max_value (bs ! i))"
  by (simp add: well_formed_def list_all_length)

text \<open>In ordered bins a later bin begins where an earlier one has ended.\<close>

lemma ordered_max_le_min:
  assumes "well_formed bs" "non_overlapping bs" "i < j" "j < length bs"
  shows "max_value (bs ! i) \<le> min_value (bs ! j)"
  using assms(3,4)
proof (induction j)
  case 0
  then show ?case by simp
next
  case (Suc j)
  have step: "max_value (bs ! j) \<le> min_value (bs ! Suc j)"
    using assms(2) Suc.prems(2) by (simp add: non_overlapping_nth)
  show ?case
  proof (cases "i = j")
    case True
    then show ?thesis using step by simp
  next
    case False
    then have "i < j" using Suc.prems(1) by simp
    then have "max_value (bs ! i) \<le> min_value (bs ! j)" using Suc.IH Suc.prems(2) by simp
    also have "\<dots> \<le> max_value (bs ! j)"
      using assms(1) Suc.prems(2) by (simp add: well_formed_nth)
    finally show ?thesis using step by simp
  qed
qed



lemma in_bin_unique:
  assumes "well_formed bs" "non_overlapping bs" "i < length bs" "j < length bs"
    "in_bin (bs ! i) x" "in_bin (bs ! j) x"
  shows "i = j"
proof (rule ccontr)
  assume "i \<noteq> j"
  then consider "i < j" | "j < i" by linarith
  then show False
  proof cases
    case 1
    from ordered_max_le_min[OF assms(1,2) 1 assms(4)] assms(5,6)
    show False by (simp add: in_bin_def)
  next
    case 2
    from ordered_max_le_min[OF assms(1,2) 2 assms(3)] assms(5,6)
    show False by (simp add: in_bin_def)
  qed
qed

lemma contiguous_covers:
  "bs \<noteq> [] \<Longrightarrow> contiguous bs \<Longrightarrow> min_value (hd bs) \<le> x \<Longrightarrow> x < max_value (last bs) \<Longrightarrow>
   \<exists>i<length bs. in_bin (bs ! i) x"
proof (induction bs rule: contiguous.induct)
  case (1 a b bs)
  show ?case
  proof (cases "x < max_value a")
    case True
    then have "in_bin ((a # b # bs) ! 0) x" using 1(4) by (simp add: in_bin_def)
    then show ?thesis by blast
  next
    case False
    then have "min_value (hd (b # bs)) \<le> x" using 1(3) by simp
    moreover have "x < max_value (last (b # bs))" using 1(5) by simp
    ultimately obtain i where "i < length (b # bs)" "in_bin ((b # bs) ! i) x"
      using 1(1) 1(3) by auto
    then have "Suc i < length (a # b # bs)" "in_bin ((a # b # bs) ! Suc i) x" by simp_all
    then show ?thesis by blast
  qed
qed (simp_all add: in_bin_def)

lemma partition_unfold:
  assumes "bins_partition lo hi bs"
  shows "bs \<noteq> []" "min_value (bs ! 0) = lo" "max_value (bs ! (length bs - 1)) = hi"
    "well_formed bs" "contiguous bs" "non_overlapping bs"
  using assms
  by (auto simp: bins_partition_def hd_conv_nth last_conv_nth contiguous_non_overlapping)


section \<open>Bin lookup\<close>












section \<open>The bins after construction and after \<^verbatim>\<open>adapt_bins\<close>\<close>

subsection \<open>Construction\<close>

lemma init_bins_nth:
  assumes "0 < n" "lo < hi" "EnhancedBrightnessModel_init lo hi n tw rw aw = Inr m"
  shows "length (ambient_bins m) = nat n"
    and "\<And>i. i < nat n \<Longrightarrow> ambient_bins m ! i =
           AdaptiveBin_init (lo + int i * ((hi - lo) div n))
             (if int i = n - 1 then hi else lo + int i * ((hi - lo) div n) + (hi - lo) div n) 50"
proof -
  have m: "m = \<lparr>ambient_bins =
                  map (\<lambda>i. AdaptiveBin_init (lo + i * ((hi - lo) div n))
                             (if i = n - 1 then hi
                              else lo + i * ((hi - lo) div n) + (hi - lo) div n) 50)
                      [0..n - 1],
                time_weight = tw, recency_weight = rw, activity_weight = aw,
                last_predictions = [], max_age_seconds = 7 * 24 * 3600\<rparr>"
    using assms by (simp add: EnhancedBrightnessModel_init_def Let_def)
  show "length (ambient_bins m) = nat n" using assms(1) by (simp add: m)
  fix i assume "i < nat n"
  then have "[0..n - 1] ! i = 0 + int i" "i < length [0..n - 1]"
    using assms(1) by (simp_all add: nth_upto)
  then show "ambient_bins m ! i =
           AdaptiveBin_init (lo + int i * ((hi - lo) div n))
             (if int i = n - 1 then hi else lo + int i * ((hi - lo) div n) + (hi - lo) div n) 50"
    by (simp add: m)
qed

lemma init_total:
  "0 < n \<Longrightarrow> lo < hi \<Longrightarrow> \<exists>m. EnhancedBrightnessModel_init lo hi n tw rw aw = Inr m"
  by (simp add: EnhancedBrightnessModel_init_def Let_def)

lemma init_partition:
  assumes "0 < n" "lo < hi" "EnhancedBrightnessModel_init lo hi n tw rw aw = Inr m"
  shows "bins_partition lo hi (ambient_bins m)"
proof -
  note len = init_bins_nth(1)[OF assms]
  note nth = init_bins_nth(2)[OF assms]
  define sz where "sz = (hi - lo) div n"
  have sz0: "0 \<le> sz" using assms(1,2) by (simp add: sz_def pos_imp_zdiv_nonneg_iff)
  have szn: "n * sz \<le> hi - lo"
  proof -
    have "n * sz + (hi - lo) mod n = hi - lo" by (simp add: sz_def)
    moreover have "0 \<le> (hi - lo) mod n" using assms(1) by simp
    ultimately show ?thesis by linarith
  qed
  have ne: "ambient_bins m \<noteq> []" using len assms(1) by auto
  have hdm: "min_value (hd (ambient_bins m)) = lo"
    using nth[of 0] assms(1) ne by (simp add: hd_conv_nth AdaptiveBin_init_def)
  have lastm: "max_value (last (ambient_bins m)) = hi"
  proof -
    have "nat n - 1 < nat n" "int (nat n - 1) = n - 1" using assms(1) by auto
    then show ?thesis using nth[of "nat n - 1"] ne len
      by (simp add: last_conv_nth AdaptiveBin_init_def)
  qed
  have wf: "well_formed (ambient_bins m)"
    unfolding well_formed_nth
  proof (intro allI impI)
    fix i assume i: "i < length (ambient_bins m)"
    then have ilt: "i < nat n" using len by simp
    show "min_value (ambient_bins m ! i) \<le> max_value (ambient_bins m ! i)"
    proof (cases "int i = n - 1")
      case True
      have "(n - 1) * sz \<le> n * sz" using sz0 by (simp add: mult_right_mono)
      then have "lo + (n - 1) * sz \<le> hi" using szn by linarith
      then show ?thesis using nth[OF ilt] True by (simp add: AdaptiveBin_init_def sz_def)
    next
      case False
      then show ?thesis using nth[OF ilt] sz0 by (simp add: AdaptiveBin_init_def sz_def)
    qed
  qed
  have ct: "contiguous (ambient_bins m)"
    unfolding contiguous_nth
  proof (intro allI impI)
    fix i assume i: "Suc i < length (ambient_bins m)"
    then have a: "i < nat n" "Suc i < nat n" "int i \<noteq> n - 1" using len by auto
    show "max_value (ambient_bins m ! i) = min_value (ambient_bins m ! Suc i)"
      using nth[OF a(1)] nth[OF a(2)] a(3)
      by (simp add: AdaptiveBin_init_def algebra_simps)
  qed
  show ?thesis unfolding bins_partition_def using ne hdm lastm wf ct by simp
qed

subsection \<open>\<^verbatim>\<open>adapt_bins\<close>\<close>

text \<open>The quantile positions \<open>(i * L) div n\<close>, for \<open>n\<close> bins and \<open>L \<ge> 2 * n\<close> values.\<close>

lemma quantile_nonneg:
  fixes i L n :: int
  assumes "0 < n" "0 \<le> i" "0 \<le> L"
  shows "0 \<le> (i * L) div n"
  using assms by (simp add: pos_imp_zdiv_nonneg_iff)

lemma quantile_step:
  fixes i L n :: int
  assumes "0 < n" "2 * n \<le> L"
  shows "(i * L) div n + 2 \<le> ((i + 1) * L) div n"
proof -
  have "(i * L) div n + 2 = (i * L + 2 * n) div n" using assms(1) by simp
  also have "\<dots> \<le> (i * L + L) div n"
    using assms by (intro zdiv_mono1) simp_all
  also have "i * L + L = (i + 1) * L" by (simp add: algebra_simps)
  finally show ?thesis .
qed

lemma quantile_le:
  fixes i L n :: int
  assumes "0 < n" "0 \<le> L" "i \<le> n"
  shows "(i * L) div n \<le> L"
proof -
  have "i * L \<le> n * L" using assms by (simp add: mult_right_mono)
  then have "(i * L) div n \<le> (n * L) div n" using assms(1) by (intro zdiv_mono1) simp_all
  then show ?thesis using assms(1) by simp
qed

lemma quantile_less:
  fixes i L n :: int
  assumes "0 < n" "0 < L" "i < n"
  shows "(i * L) div n < L"
proof (rule ccontr)
  assume "\<not> (i * L) div n < L"
  then have "L \<le> (i * L) div n" by simp
  then have "L * n \<le> (i * L) div n * n" using assms(1) by (simp add: mult_right_mono)
  moreover have "(i * L) div n * n + (i * L) mod n = i * L" by simp
  moreover have "0 \<le> (i * L) mod n" using assms(1) by simp
  ultimately have "L * n \<le> i * L" by linarith
  moreover have "i * L < n * L" using assms by simp
  ultimately show False by (simp add: mult.commute)
qed

text \<open>With at least two values per bin, the body of the loop of \<^verbatim>\<open>adapt_bins\<close> never
  skips a bin and never raises: its result in closed form.\<close>

lemma adapt_one_closed:
  assumes "0 < n" "0 \<le> i" "i < n" "2 * n \<le> int (length al)"
  shows "adapt_one al n i b =
     (b\<lparr>min_value := al ! nat ((i * int (length al)) div n),
        max_value :=
          (if i = n - 1 then al ! (length al - 1)
           else if al ! nat (((i + 1) * int (length al)) div n - 1)
                     \<le> al ! nat ((i * int (length al)) div n)
                then al ! nat (((i + 1) * int (length al)) div n)
                else al ! nat (((i + 1) * int (length al)) div n - 1))\<rparr>,
      None)"
proof -
  define L where "L = int (length al)"
  define st where "st = (i * L) div n"
  define en where "en = ((i + 1) * L) div n - 1"
  have L2: "2 \<le> L" "0 < L" "0 \<le> L" using assms(1,4) unfolding L_def by linarith+
  have st0: "0 \<le> st" unfolding st_def by (rule quantile_nonneg[OF assms(1,2) L2(3)])
  have step: "st + 2 \<le> en + 1"
    unfolding st_def en_def using quantile_step[OF assms(1), of L i] assms(4) by (simp add: L_def)
  have enL: "en + 1 \<le> L"
    unfolding en_def using quantile_le[OF assms(1) L2(3), of "i + 1"] assms(3) by simp
  have minen: "min (((i + 1) * L) div n - 1) (L - 1) = en"
    using enL by (simp add: en_def)
  have noskip: "\<not> (st \<ge> L \<or> en < 0 \<or> st > en)" using st0 step enL by linarith
  have g1: "py_getitem al st = Inr (al ! nat st)"
    using st0 step enL by (simp add: py_getitem_def L_def)
  have g2: "py_getitem al (- 1) = Inr (al ! (length al - 1))"
    using L2 by (simp add: py_getitem_def L_def nat_diff_distrib)
  have g3: "py_getitem al en = Inr (al ! nat en)"
    using st0 step enL by (simp add: py_getitem_def L_def)
  have g4: "en + 1 < L \<and> py_getitem al (en + 1) = Inr (al ! nat (en + 1))" if "i \<noteq> n - 1"
  proof -
    have "i + 1 < n" using that assms(3) by simp
    from quantile_less[OF assms(1) L2(2) this] have "en + 1 < L" by (simp add: en_def)
    moreover have "0 \<le> en + 1" using st0 step by linarith
    ultimately show ?thesis by (simp add: py_getitem_def L_def)
  qed
  show ?thesis
  proof (cases "i = n - 1")
    case True
    then show ?thesis
      unfolding adapt_one_def Let_def L_def[symmetric] minen st_def[symmetric]
      using noskip g1 g2 by simp
  next
    case False
    then have lt: "i < n - 1" using assms(3) by simp
    have en1: "((i + 1) * L) div n = en + 1" by (simp add: en_def)
    show ?thesis
      unfolding adapt_one_def Let_def L_def[symmetric] minen st_def[symmetric] en1
      using noskip g1 g3 g4[OF False] False lt by (simp add: en_def)
  qed
qed

lemma adapt_loop_nth:
  assumes "0 < n" "0 \<le> i" "i + int (length bs) \<le> n" "2 * n \<le> int (length al)"
    "j < length bs"
  shows "adapt_loop al n i bs ! j = fst (adapt_one al n (i + int j) (bs ! j))"
  using assms(2,3,5)
proof (induction bs arbitrary: i j)
  case Nil
  then show ?case by simp
next
  case (Cons b bs)
  have ilt: "i < n" using Cons.prems(2) by simp
  have none: "snd (adapt_one al n i b) = None"
    by (simp add: adapt_one_closed[OF assms(1) Cons.prems(1) ilt assms(4)])
  then have loop: "adapt_loop al n i (b # bs)
                   = fst (adapt_one al n i b) # adapt_loop al n (i + 1) bs"
    by (cases "adapt_one al n i b") simp
  show ?case
  proof (cases j)
    case 0
    then show ?thesis unfolding loop by simp
  next
    case (Suc j')
    have "adapt_loop al n (i + 1) bs ! j' = fst (adapt_one al n (i + 1 + int j') (bs ! j'))"
      using Cons.IH[of "i + 1" j'] Cons.prems Suc by simp
    then show ?thesis unfolding loop Suc by (simp add: algebra_simps)
  qed
qed

text \<open>The bins after a rebin on at least two values per bin, position by position:
  bin \<open>j\<close> begins at the \<open>j\<close>-th quantile of the sorted values; the last bin ends at the
  largest value, every other bin at the value before the next quantile or, when that is
  not above its beginning, at the next quantile itself.\<close>

lemma adapt_bins_nth:
  assumes "ambient_bins m \<noteq> []" "2 * length (ambient_bins m) \<le> length hist"
    "j < length (ambient_bins m)"
  shows "ambient_bins (adapt_bins m hist) ! j =
     (ambient_bins m ! j)
       \<lparr>min_value := sort (map ambient_light hist)
                        ! nat ((int j * int (length hist)) div int (length (ambient_bins m))),
        max_value :=
          (if Suc j = length (ambient_bins m)
           then sort (map ambient_light hist) ! (length hist - 1)
           else if sort (map ambient_light hist)
                     ! nat (((int j + 1) * int (length hist)) div int (length (ambient_bins m)) - 1)
                   \<le> sort (map ambient_light hist)
                     ! nat ((int j * int (length hist)) div int (length (ambient_bins m)))
                then sort (map ambient_light hist)
                     ! nat (((int j + 1) * int (length hist)) div int (length (ambient_bins m)))
                else sort (map ambient_light hist)
                     ! nat (((int j + 1) * int (length hist)) div int (length (ambient_bins m)) - 1))\<rparr>"
proof -
  define al where "al = sort (map ambient_light hist)"
  define n where "n = int (length (ambient_bins m))"
  have n0: "0 < n" using assms(1) by (simp add: n_def)
  have len: "int (length al) = int (length hist)" by (simp add: al_def)
  have L: "2 * n \<le> int (length al)" using assms(2) by (simp add: n_def len)
  have jn: "int j < n" using assms(3) by (simp add: n_def)
  have last: "(int j = n - 1) = (Suc j = length (ambient_bins m))" by (auto simp: n_def)
  have ab: "ambient_bins (adapt_bins m hist) = adapt_loop al n 0 (ambient_bins m)"
    using assms(2) by (simp add: adapt_bins_def Let_def al_def n_def)
  have "ambient_bins (adapt_bins m hist) ! j = fst (adapt_one al n (int j) (ambient_bins m ! j))"
    unfolding ab using adapt_loop_nth[OF n0 _ _ L assms(3), of 0] by (simp add: n_def)
  also have "\<dots> = (ambient_bins m ! j)
       \<lparr>min_value := al ! nat ((int j * int (length al)) div n),
        max_value :=
          (if int j = n - 1 then al ! (length al - 1)
           else if al ! nat (((int j + 1) * int (length al)) div n - 1)
                     \<le> al ! nat ((int j * int (length al)) div n)
                then al ! nat (((int j + 1) * int (length al)) div n)
                else al ! nat (((int j + 1) * int (length al)) div n - 1))\<rparr>"
    by (simp add: adapt_one_closed[OF n0 _ jn L])
  finally show ?thesis unfolding last by (simp add: al_def n_def)
qed

lemma adapt_bins_length:
  "length (ambient_bins (adapt_bins m hist)) = length (ambient_bins m)"
  by (simp add: adapt_bins_def Let_def adapt_loop_length)

lemma adapt_bins_ordered:
  assumes ne: "ambient_bins m \<noteq> []" and big: "2 * length (ambient_bins m) \<le> length hist"
  shows "bins_ordered (ambient_bins (adapt_bins m hist))"
    and "min_value (hd (ambient_bins (adapt_bins m hist))) = hd (sort (map ambient_light hist))"
    and "max_value (last (ambient_bins (adapt_bins m hist))) = last (sort (map ambient_light hist))"
proof -
  define al where "al = sort (map ambient_light hist)"
  define N where "N = length (ambient_bins m)"
  define n where "n = int N"
  define L where "L = int (length hist)"
  define q where "q j = (int j * L) div n" for j
  let ?bs = "ambient_bins (adapt_bins m hist)"
  have sorted: "sorted al" by (simp add: al_def)
  have lal: "length al = length hist" by (simp add: al_def)
  have n0: "0 < n" using ne by (simp add: n_def N_def)
  have L2: "2 * n \<le> L" using big by (simp add: n_def N_def L_def)
  have L0: "0 < L" "0 \<le> L" using n0 L2 by linarith+
  have len: "length ?bs = N" by (simp add: adapt_bins_length N_def)
  have q0: "0 \<le> q j" for j unfolding q_def by (rule quantile_nonneg[OF n0 _ L0(2)]) simp
  have qstep: "q j + 2 \<le> q (Suc j)" for j
    using quantile_step[OF n0 L2, of "int j"] by (simp add: q_def add.commute)
  have qle: "q (Suc j) \<le> L" if "j < N" for j
    using quantile_le[OF n0 L0(2), of "int (Suc j)"] that by (simp add: q_def n_def)
  have qlt: "q (Suc j) < L" if "Suc j < N" for j
    using quantile_less[OF n0 L0(1), of "int (Suc j)"] that by (simp add: q_def n_def)
  have nth: "?bs ! j =
     (ambient_bins m ! j)
       \<lparr>min_value := al ! nat (q j),
        max_value := (if Suc j = N then al ! (length hist - 1)
                      else if al ! nat (q (Suc j) - 1) \<le> al ! nat (q j)
                           then al ! nat (q (Suc j)) else al ! nat (q (Suc j) - 1))\<rparr>"
    if "j < N" for j
    using adapt_bins_nth[OF ne big, of j] that
    by (simp add: al_def N_def n_def L_def q_def add.commute)
  have mono: "al ! a \<le> al ! b" if "a \<le> b" "b < length hist" for a b
    using sorted_nth_mono[OF sorted that(1)] that(2) by (simp add: lal)
  have idx: "nat (q j) < nat (q (Suc j) - 1)" "nat (q (Suc j) - 1) < nat (q (Suc j))"
    "nat (q (Suc j)) \<le> length hist" if "j < N" for j
    using q0[of j] qstep[of j] qle[OF that] by (simp_all add: L_def)
  have wf: "well_formed ?bs"
    unfolding well_formed_nth len
  proof (intro allI impI)
    fix j assume j: "j < N"
    note i = idx[OF j]
    have a: "al ! nat (q j) \<le> al ! (length hist - 1)"
      by (rule mono) (use i in linarith)+
    have b: "al ! nat (q j) \<le> al ! nat (q (Suc j))" if "Suc j \<noteq> N"
    proof -
      have "Suc j < N" using j that by simp
      then have "nat (q (Suc j)) < length hist" using qlt[of j] q0[of "Suc j"] by (simp add: L_def)
      then show ?thesis using i by (intro mono) linarith+
    qed
    show "min_value (?bs ! j) \<le> max_value (?bs ! j)"
      using a b by (auto simp: nth[OF j])
  qed
  have no: "non_overlapping ?bs"
    unfolding non_overlapping_nth len
  proof (intro allI impI)
    fix j assume sj: "Suc j < N"
    then have j: "j < N" by simp
    note i = idx[OF j]
    have lt: "nat (q (Suc j)) < length hist"
      using qlt[OF sj] q0[of "Suc j"] by (simp add: L_def)
    have "al ! nat (q (Suc j) - 1) \<le> al ! nat (q (Suc j))"
      by (rule mono) (use i lt in linarith)+
    then show "max_value (?bs ! j) \<le> min_value (?bs ! Suc j)"
      using sj by (simp add: nth[OF j] nth[OF sj])
  qed
  show "bins_ordered ?bs" using wf no by (simp add: bins_ordered_def)
  have bne: "?bs \<noteq> []" "al \<noteq> []" using len ne L0 by (auto simp: N_def lal[symmetric] L_def)
  have N0: "0 < N" using ne by (simp add: N_def)
  have "q 0 = 0" by (simp add: q_def)
  then show "min_value (hd ?bs) = hd (sort (map ambient_light hist))"
    using bne nth[OF N0] by (simp add: hd_conv_nth al_def[symmetric])
  have "Suc (N - 1) = N" "N - 1 < N" using N0 by simp_all
  then show "max_value (last ?bs) = last (sort (map ambient_light hist))"
    using bne nth[of "N - 1"] len
    by (simp add: last_conv_nth al_def[symmetric] lal)
qed

lemma sorted_hd_Min: "sorted xs \<Longrightarrow> xs \<noteq> [] \<Longrightarrow> hd xs = Min (set xs)"
  by (cases xs) (auto intro!: Min_eqI[symmetric])

lemma sorted_last_Max: "sorted xs \<Longrightarrow> xs \<noteq> [] \<Longrightarrow> last xs = Max (set xs)"
proof (induction xs)
  case Nil
  then show ?case by simp
next
  case (Cons a xs)
  show ?case
  proof (cases "xs = []")
    case True
    then show ?thesis by simp
  next
    case False
    then have "last xs = Max (set xs)" using Cons by simp
    moreover have "a \<le> Max (set xs)" using Cons.prems False
      by (metis List.finite_set Max_ge_iff last_in_set calculation set_empty sorted_simps(2))
    ultimately show ?thesis using False by (simp add: max_def)
  qed
qed

lemma partition_one_bin:
  assumes "bins_partition lo hi bs" "lo \<le> x" "x < hi"
  shows "\<exists>k. k < length bs \<and> in_bin (bs ! k) x
             \<and> (\<forall>j. j < length bs \<and> in_bin (bs ! j) x \<longrightarrow> j = k)"
proof -
  note u = partition_unfold[OF assms(1)]
  have "min_value (hd bs) \<le> x" "x < max_value (last bs)"
    using assms by (simp_all add: bins_partition_def)
  from contiguous_covers[OF u(1) u(5) this] obtain k where k: "k < length bs" "in_bin (bs ! k) x"
    by blast
  have "\<forall>j. j < length bs \<and> in_bin (bs ! j) x \<longrightarrow> j = k"
  proof (intro allI impI)
    fix j assume "j < length bs \<and> in_bin (bs ! j) x"
    then have j1: "j < length bs" and j2: "in_bin (bs ! j) x" by simp_all
    show "j = k" by (rule in_bin_unique[OF u(4) u(6) j1 k(1) j2 k(2)])
  qed
  then show ?thesis using k by blast
qed

lemma adapt_bins_history4:
  "ambient_bins (adapt_bins fresh_model history4)
   = [\<lparr>min_value = 10, max_value = 20, points = [], total_weight = 0, max_points = 50\<rparr>,
      \<lparr>min_value = 30, max_value = 40, points = [], total_weight = 0, max_points = 50\<rparr>]"
  by (simp add: adapt_bins_def adapt_one_def py_getitem_def Let_def history4_def
      manual_point_def fresh_model_def)

lemma fresh_model_partition: "bins_partition 0 100 (ambient_bins fresh_model)"
  by (simp add: bins_partition_def well_formed_def fresh_model_def)

text \<open>
  Claim C1, as amended. A model constructed with \<open>min_ambient < max_ambient\<close> and
  \<open>bin_count > 0\<close> has \<open>bin_count\<close> bins that are sorted ascending, contiguous and cover
  exactly \<open>[min_ambient, max_ambient]\<close>: every value from \<open>min_ambient\<close> up to, but not
  including, \<open>max_ambient\<close> lies in the half-open range of exactly one bin (and the last
  bin ends at \<open>max_ambient\<close>). After \<^verbatim>\<open>adapt_bins\<close> on a history of at least two
  observations per bin there are as many bins as before, they are sorted ascending and
  do not overlap, the first begins at the smallest and the last ends at the largest
  ambient value of the history; they need not be contiguous and need not cover
  \<open>[min_ambient, max_ambient]\<close>.
\<close>

theorem bins_after_construction_and_rebin:
  "(lo < hi \<and> 0 < n \<longrightarrow>
      (\<exists>m0. EnhancedBrightnessModel_init lo hi n tw rw aw = Inr m0
         \<and> int (length (ambient_bins m0)) = n
         \<and> bins_partition lo hi (ambient_bins m0)
         \<and> (\<forall>x. lo \<le> x \<and> x < hi \<longrightarrow>
               (\<exists>k. k < length (ambient_bins m0) \<and> in_bin (ambient_bins m0 ! k) x
                  \<and> (\<forall>j. j < length (ambient_bins m0) \<and> in_bin (ambient_bins m0 ! j) x
                         \<longrightarrow> j = k)))))
   \<and> (ambient_bins m \<noteq> [] \<and> 2 * length (ambient_bins m) \<le> length hist \<longrightarrow>
        length (ambient_bins (adapt_bins m hist)) = length (ambient_bins m)
        \<and> bins_ordered (ambient_bins (adapt_bins m hist))
        \<and> min_value (hd (ambient_bins (adapt_bins m hist))) = Min (ambient_light ` set hist)
        \<and> max_value (last (ambient_bins (adapt_bins m hist))) = Max (ambient_light ` set hist))"
proof (intro conjI impI)
  assume a: "lo < hi \<and> 0 < n"
  then obtain m0 where m0: "EnhancedBrightnessModel_init lo hi n tw rw aw = Inr m0"
    using init_total by blast
  have p: "bins_partition lo hi (ambient_bins m0)"
    using init_partition[OF _ _ m0] a by simp
  have l: "int (length (ambient_bins m0)) = n"
    using init_bins_nth(1)[OF _ _ m0] a by simp
  have "\<forall>x. lo \<le> x \<and> x < hi \<longrightarrow>
               (\<exists>k. k < length (ambient_bins m0) \<and> in_bin (ambient_bins m0 ! k) x
                  \<and> (\<forall>j. j < length (ambient_bins m0) \<and> in_bin (ambient_bins m0 ! j) x
                         \<longrightarrow> j = k))"
    using partition_one_bin[OF p] by blast
  then show "\<exists>m0. EnhancedBrightnessModel_init lo hi n tw rw aw = Inr m0
         \<and> int (length (ambient_bins m0)) = n
         \<and> bins_partition lo hi (ambient_bins m0)
         \<and> (\<forall>x. lo \<le> x \<and> x < hi \<longrightarrow>
               (\<exists>k. k < length (ambient_bins m0) \<and> in_bin (ambient_bins m0 ! k) x
                  \<and> (\<forall>j. j < length (ambient_bins m0) \<and> in_bin (ambient_bins m0 ! j) x
                         \<longrightarrow> j = k)))"
    using m0 p l by blast
next
  assume a: "ambient_bins m \<noteq> [] \<and> 2 * length (ambient_bins m) \<le> length hist"
  then have ne: "ambient_bins m \<noteq> []" and big: "2 * length (ambient_bins m) \<le> length hist"
    by simp_all
  show "length (ambient_bins (adapt_bins m hist)) = length (ambient_bins m)"
    by (rule adapt_bins_length)
  show "bins_ordered (ambient_bins (adapt_bins m hist))"
    by (rule adapt_bins_ordered(1)[OF ne big])
  have hne: "sort (map ambient_light hist) \<noteq> []" using ne big by (cases hist) auto
  have "hd (sort (map ambient_light hist)) = Min (set (sort (map ambient_light hist)))"
    by (rule sorted_hd_Min[OF _ hne]) simp
  then show "min_value (hd (ambient_bins (adapt_bins m hist))) = Min (ambient_light ` set hist)"
    using adapt_bins_ordered(2)[OF ne big] by simp
  have "last (sort (map ambient_light hist)) = Max (set (sort (map ambient_light hist)))"
    by (rule sorted_last_Max[OF _ hne]) simp
  then show "max_value (last (ambient_bins (adapt_bins m hist))) = Max (ambient_light ` set hist)"
    using adapt_bins_ordered(3)[OF ne big] by simp
qed

theorem bins_after_construction_and_rebin_witness:
  "(0 :: int) < 100 \<and> (0 :: int) < 2
   \<and> EnhancedBrightnessModel_init 0 100 2 0.3 0.4 0.3 = Inr fresh_model
   \<and> bins_partition 0 100 (ambient_bins fresh_model)
   \<and> in_bin (ambient_bins fresh_model ! 0) 25
   \<and> ambient_bins fresh_model \<noteq> []
   \<and> 2 * length (ambient_bins fresh_model) \<le> length history4
   \<and> bins_ordered (ambient_bins (adapt_bins fresh_model history4))
   \<and> min_value (hd (ambient_bins (adapt_bins fresh_model history4))) = 10
   \<and> max_value (last (ambient_bins (adapt_bins fresh_model history4))) = 40"
  using bins_after_construction_and_rebin[where lo = 0 and hi = 100 and n = 2
      and tw = "0.3" and rw = "0.4" and aw = "0.3" and m = fresh_model and hist = history4]
    fresh_model_init fresh_model_partition adapt_bins_history4
  by (simp add: fresh_model_def history4_def manual_point_def in_bin_def)

text \<open>
  Claim C1 as stated fails after a rebin: the model with bins \<open>[0, 50)\<close>, \<open>[50, 100]\<close>,
  rebinned on four observations with ambient light 10, 20, 30 and 40, has the bins
  \<open>[10, 20)\<close> and \<open>[30, 40]\<close>. They are not contiguous, they do not cover \<open>[0, 100]\<close>,
  and the value 25 lies in no bin.
\<close>

theorem rebin_leaves_gap_counterexample:
  "bins_partition 0 100 (ambient_bins fresh_model)
   \<and> 2 * length (ambient_bins fresh_model) \<le> length history4
   \<and> ambient_bins (adapt_bins fresh_model history4)
       = [\<lparr>min_value = 10, max_value = 20, points = [], total_weight = 0, max_points = 50\<rparr>,
          \<lparr>min_value = 30, max_value = 40, points = [], total_weight = 0, max_points = 50\<rparr>]
   \<and> \<not> contiguous (ambient_bins (adapt_bins fresh_model history4))
   \<and> \<not> bins_partition 0 100 (ambient_bins (adapt_bins fresh_model history4))
   \<and> train_find_bin (ambient_bins (adapt_bins fresh_model history4)) 0 2 25 = None"
proof -
  have size: "2 * length (ambient_bins fresh_model) \<le> length history4"
    by (simp add: fresh_model_def history4_def)
  have gap: "\<not> contiguous (ambient_bins (adapt_bins fresh_model history4))"
    by (simp add: adapt_bins_history4)
  then have nopart: "\<not> bins_partition 0 100 (ambient_bins (adapt_bins fresh_model history4))"
    by (simp add: bins_partition_def)
  have nobin: "train_find_bin (ambient_bins (adapt_bins fresh_model history4)) 0 2 25 = None"
    by (simp add: adapt_bins_history4)
  show ?thesis
    by (intro conjI fresh_model_partition size adapt_bins_history4 gap nopart nobin)
qed

section \<open>The bookkeeping of a bin in double precision\<close>

lemmas rnd_eval = rnd_def ilog2_def pow2_def round_half_even_def bit_length.simps Let_def

lemma double_literals:
  "rnd (1 / 10) = 3602879701896397 / 2 ^ 55"
  "rnd (2 / 10) = 3602879701896397 / 2 ^ 54"
  "rnd (3 / 10) = 5404319552844595 / 2 ^ 54"
  by (simp_all add: rnd_eval)

lemma cleanup_loop_d_eq:
  "cleanup_loop_d ps now ma (np, t) =
     (np @ filter (\<lambda>p. now - point_timestamp p \<le> ma) ps,
      foldl dadd t (map weight (filter (\<lambda>p. now - point_timestamp p \<le> ma) ps)))"
  by (induction ps arbitrary: np t) simp_all

lemma bin_cleanup_d_eq:
  "bin_cleanup_d b now ma =
     b\<lparr>points := filter (\<lambda>p. now - point_timestamp p \<le> ma) (points b),
       total_weight := dsum (map weight (filter (\<lambda>p. now - point_timestamp p \<le> ma) (points b)))\<rparr>"
  by (simp add: bin_cleanup_d_def cleanup_loop_d_eq dsum_def)

lemma bin_cleanup_d_dsum: "total_weight_dsum (bin_cleanup_d b now ma)"
  by (simp add: bin_cleanup_d_eq total_weight_dsum_def)

lemma init_dsum: "total_weight_dsum (AdaptiveBin_init lo hi cap)"
  by (simp add: AdaptiveBin_init_def total_weight_dsum_def dsum_def)

lemma update_d_no_evict:
  "\<not> int (length (points b)) + 1 > max_points b \<Longrightarrow>
   update_d b br w ts =
     b\<lparr>points := points b @ [\<lparr>brightness = br, weight = w, point_timestamp = ts\<rparr>],
       total_weight := dadd (total_weight b) w\<rparr>"
  by (simp add: update_d_def)

lemma update_d_evict:
  "int (length (points b)) + 1 > max_points b \<Longrightarrow>
   update_d b br w ts =
     b\<lparr>points := pop (points b @ [\<lparr>brightness = br, weight = w, point_timestamp = ts\<rparr>])
                    (min_weight_idx (points b @ [\<lparr>brightness = br, weight = w, point_timestamp = ts\<rparr>])),
       total_weight := dsub (dadd (total_weight b) w)
          (weight ((points b @ [\<lparr>brightness = br, weight = w, point_timestamp = ts\<rparr>])
                     ! min_weight_idx (points b @ [\<lparr>brightness = br, weight = w, point_timestamp = ts\<rparr>])))\<rparr>"
  by (simp add: update_d_def Let_def)

lemma update_d_points: "points (update_d b br w ts) = points (update b br w ts)"
  by (simp add: update_d_def update_def Let_def)

lemma update_d_dsum:
  assumes "total_weight_dsum b" "\<not> int (length (points b)) + 1 > max_points b"
  shows "total_weight_dsum (update_d b br w ts)"
  using assms(1) by (simp add: update_d_no_evict[OF assms(2)] total_weight_dsum_def dsum_def)

text \<open>The bin \<^verbatim>\<open>AdaptiveBin(0, 10, max_points=2)\<close> after \<^verbatim>\<open>update(50, 0.1, 0)\<close>,
  \<^verbatim>\<open>update(50, 0.2, 1)\<close> and \<^verbatim>\<open>update(50, 0.3, 2)\<close>: the third call evicts the first
  point.\<close>

lemma three_updates_d:
  "updates_d (AdaptiveBin_init 0 10 2) [(50, rnd (1 / 10), 0), (50, rnd (2 / 10), 1)]
   = \<lparr>min_value = 0, max_value = 10,
      points = [\<lparr>brightness = 50, weight = 3602879701896397 / 2 ^ 55, point_timestamp = 0\<rparr>,
                \<lparr>brightness = 50, weight = 3602879701896397 / 2 ^ 54, point_timestamp = 1\<rparr>],
      total_weight = 5404319552844596 / 2 ^ 54, max_points = 2\<rparr>"
  "updates_d (AdaptiveBin_init 0 10 2)
     [(50, rnd (1 / 10), 0), (50, rnd (2 / 10), 1), (50, rnd (3 / 10), 2)]
   = \<lparr>min_value = 0, max_value = 10,
      points = [\<lparr>brightness = 50, weight = 3602879701896397 / 2 ^ 54, point_timestamp = 1\<rparr>,
                \<lparr>brightness = 50, weight = 5404319552844595 / 2 ^ 54, point_timestamp = 2\<rparr>],
      total_weight = 4503599627370497 / 2 ^ 53, max_points = 2\<rparr>"
  by (simp_all add: updates_d_def update_d_def AdaptiveBin_init_def dadd_def dsub_def rnd_eval
      min_weight_idx_def pop_def)

text \<open>
  Claim C5 as stated fails in the arithmetic of the code. After the three updates above
  \<open>total_weight\<close> is \<open>((0.1 + 0.2) + 0.3) - 0.1\<close> in doubles, which is
  \<open>4503599627370497 / 2 ^ 53\<close> (0.5000000000000001), while the two weights left sum to
  \<open>1 / 2\<close>, exactly and as doubles. Before the eviction the invariant holds.
\<close>

theorem total_weight_after_eviction_counterexample:
  "total_weight_dsum
     (updates_d (AdaptiveBin_init 0 10 2) [(50, rnd (1 / 10), 0), (50, rnd (2 / 10), 1)])
   \<and> total_weight
        (updates_d (AdaptiveBin_init 0 10 2)
           [(50, rnd (1 / 10), 0), (50, rnd (2 / 10), 1), (50, rnd (3 / 10), 2)])
       = 4503599627370497 / 2 ^ 53
   \<and> sum_list (map weight (points
        (updates_d (AdaptiveBin_init 0 10 2)
           [(50, rnd (1 / 10), 0), (50, rnd (2 / 10), 1), (50, rnd (3 / 10), 2)])))
       = 1 / 2
   \<and> dsum (map weight (points
        (updates_d (AdaptiveBin_init 0 10 2)
           [(50, rnd (1 / 10), 0), (50, rnd (2 / 10), 1), (50, rnd (3 / 10), 2)])))
       = 1 / 2
   \<and> \<not> total_weight_dsum
        (updates_d (AdaptiveBin_init 0 10 2)
           [(50, rnd (1 / 10), 0), (50, rnd (2 / 10), 1), (50, rnd (3 / 10), 2)])
   \<and> \<not> total_weight_exact
        (updates_d (AdaptiveBin_init 0 10 2)
           [(50, rnd (1 / 10), 0), (50, rnd (2 / 10), 1), (50, rnd (3 / 10), 2)])"
  unfolding three_updates_d
  by (simp add: total_weight_dsum_def total_weight_exact_def dsum_def dadd_def rnd_eval)

text \<open>
  Claim C5, as amended. In the double arithmetic of the code, \<open>total_weight\<close> is the
  left-to-right sum of the weights of the points of the bin when the bin is created,
  after every \<^verbatim>\<open>update\<close> that evicts nothing (if it was before), and after every
  \<^verbatim>\<open>cleanup\<close> (whatever it was before). An \<^verbatim>\<open>update\<close> that evicts sets \<open>total_weight\<close>
  to the double \<open>(T + w) - e\<close>, where \<open>T\<close> is the old value, \<open>w\<close> the new weight and \<open>e\<close>
  the weight of the evicted point; this is the sum of the weights left in exact
  arithmetic (where both \<^verbatim>\<open>update\<close> and \<^verbatim>\<open>cleanup\<close> keep \<open>total_weight\<close> equal to the
  sum), but in doubles only up to rounding.
\<close>

theorem total_weight_bookkeeping:
  "total_weight_dsum (AdaptiveBin_init lo hi cap)
   \<and> (total_weight_dsum b \<and> int (length (points b)) + 1 \<le> max_points b \<longrightarrow>
        total_weight_dsum (update_d b br w ts))
   \<and> total_weight_dsum (bin_cleanup_d b now ma)
   \<and> (int (length (points b)) + 1 > max_points b \<longrightarrow>
        total_weight (update_d b br w ts)
        = dsub (dadd (total_weight b) w)
            (weight ((points b @ [\<lparr>brightness = br, weight = w, point_timestamp = ts\<rparr>])
               ! min_weight_idx
                   (points b @ [\<lparr>brightness = br, weight = w, point_timestamp = ts\<rparr>]))))
   \<and> points (update_d b br w ts) = points (update b br w ts)
   \<and> points (bin_cleanup_d b now ma) = points (bin_cleanup b now ma)
   \<and> total_weight_exact (AdaptiveBin_init lo hi cap)
   \<and> (total_weight_exact b \<longrightarrow> total_weight_exact (update b br w ts))
   \<and> total_weight_exact (bin_cleanup b now ma)"
proof (intro conjI impI)
  show "total_weight_dsum (AdaptiveBin_init lo hi cap)" by (rule init_dsum)
  show "total_weight_dsum (bin_cleanup_d b now ma)" by (rule bin_cleanup_d_dsum)
  show "points (update_d b br w ts) = points (update b br w ts)" by (rule update_d_points)
  show "points (bin_cleanup_d b now ma) = points (bin_cleanup b now ma)"
    by (simp add: bin_cleanup_d_eq bin_cleanup_eq)
  show "total_weight_exact (AdaptiveBin_init lo hi cap)" by (rule init_total_weight_exact)
  show "total_weight_exact (bin_cleanup b now ma)" by (rule bin_cleanup_total_weight_exact)
next
  assume "total_weight_dsum b \<and> int (length (points b)) + 1 \<le> max_points b"
  then show "total_weight_dsum (update_d b br w ts)" by (simp add: update_d_dsum)
next
  assume "int (length (points b)) + 1 > max_points b"
  then show "total_weight (update_d b br w ts)
        = dsub (dadd (total_weight b) w)
            (weight ((points b @ [\<lparr>brightness = br, weight = w, point_timestamp = ts\<rparr>])
               ! min_weight_idx
                   (points b @ [\<lparr>brightness = br, weight = w, point_timestamp = ts\<rparr>])))"
    by (simp add: update_d_evict)
next
  assume "total_weight_exact b"
  then show "total_weight_exact (update b br w ts)" by (rule update_total_weight_exact)
qed

theorem total_weight_bookkeeping_witness:
  "total_weight_dsum
     (updates_d (AdaptiveBin_init 0 10 2) [(50, rnd (1 / 10), 0)])
   \<and> int (length (points (updates_d (AdaptiveBin_init 0 10 2) [(50, rnd (1 / 10), 0)]))) + 1 \<le> 2
   \<and> total_weight_dsum
        (update_d (updates_d (AdaptiveBin_init 0 10 2) [(50, rnd (1 / 10), 0)])
           50 (rnd (2 / 10)) 1)
   \<and> total_weight
        (update_d (updates_d (AdaptiveBin_init 0 10 2) [(50, rnd (1 / 10), 0)])
           50 (rnd (2 / 10)) 1) = 5404319552844596 / 2 ^ 54
   \<and> int (length (points
        (updates_d (AdaptiveBin_init 0 10 2) [(50, rnd (1 / 10), 0), (50, rnd (2 / 10), 1)])))
       + 1 > 2
   \<and> total_weight
        (update_d
           (updates_d (AdaptiveBin_init 0 10 2) [(50, rnd (1 / 10), 0), (50, rnd (2 / 10), 1)])
           50 (rnd (3 / 10)) 2)
       = 4503599627370497 / 2 ^ 53
   \<and> total_weight_exact \<lparr>min_value = 0, max_value = 10,
        points = [\<lparr>brightness = 1, weight = 1/2, point_timestamp = 0\<rparr>,
                  \<lparr>brightness = 2, weight = 3/10, point_timestamp = 1\<rparr>],
        total_weight = 4/5, max_points = 2\<rparr>
   \<and> total_weight_exact (update \<lparr>min_value = 0, max_value = 10,
        points = [\<lparr>brightness = 1, weight = 1/2, point_timestamp = 0\<rparr>,
                  \<lparr>brightness = 2, weight = 3/10, point_timestamp = 1\<rparr>],
        total_weight = 4/5, max_points = 2\<rparr> 3 (1/5) 2)"
  using total_weight_bookkeeping
    [where b = "updates_d (AdaptiveBin_init 0 10 2) [(50, rnd (1 / 10), 0)]"
       and br = 50 and w = "rnd (2 / 10)" and ts = 1]
    total_weight_bookkeeping
    [where b = "updates_d (AdaptiveBin_init 0 10 2)
                  [(50, rnd (1 / 10), 0), (50, rnd (2 / 10), 1)]"
       and br = 50 and w = "rnd (3 / 10)" and ts = 2]
    total_weight_bookkeeping
    [where b = "\<lparr>min_value = 0, max_value = 10,
        points = [\<lparr>brightness = 1, weight = 1/2, point_timestamp = 0\<rparr>,
                  \<lparr>brightness = 2, weight = 3/10, point_timestamp = 1\<rparr>],
        total_weight = 4/5, max_points = 2\<rparr>" and br = 3 and w = "1/5" and ts = 2]
  by (simp add: updates_d_def update_d_def update_def AdaptiveBin_init_def dadd_def dsub_def
      rnd_eval min_weight_idx_def pop_def total_weight_dsum_def total_weight_exact_def dsum_def)

section \<open>\<^verbatim>\<open>predict\<close> with its conversions: exceptions and range\<close>

lemma float_of_int_total: "fits_double n \<Longrightarrow> \<exists>v. float_of_int n = Inr v"
  by (simp add: float_of_int_def)

lemma weighted_sum_d_total:
  "list_all (\<lambda>p. fits_double (brightness p)) ps \<Longrightarrow> \<exists>s. weighted_sum_d ps acc = Inr s"
proof (induction ps arbitrary: acc)
  case Nil
  then show ?case by simp
next
  case (Cons p ps)
  then obtain br where br: "float_of_int (brightness p) = Inr br"
    using float_of_int_total by auto
  show ?case using Cons by (simp add: br)
qed

lemma get_weighted_average_d_total:
  assumes "bin_fits_double b"
  shows "\<exists>r. get_weighted_average_d b = Inr r"
proof (cases "points b = [] \<or> total_weight b = 0")
  case True
  then show ?thesis by (auto simp: get_weighted_average_d_def)
next
  case False
  obtain s where s: "weighted_sum_d (points b) 0 = Inr s"
    using weighted_sum_d_total assms by (auto simp: bin_fits_double_def)
  show ?thesis using False by (simp add: get_weighted_average_d_def s ddiv_def)
qed

lemma neighbor_search_d_total:
  assumes "k < length bins" "list_all bin_fits_double bins"
  shows "\<exists>r. neighbor_search_d bins k ds = Inr r"
proof (induction ds)
  case Nil
  then show ?case by simp
next
  case (Cons d ds)
  obtain r where r: "neighbor_search_d bins k ds = Inr r" using Cons by blast
  have fits: "\<And>j. j < length bins \<Longrightarrow> \<exists>v. get_weighted_average_d (bins ! j) = Inr v"
    using assms(2) by (simp add: list_all_length get_weighted_average_d_total)
  have prev: "\<exists>v. (if int k - int d \<ge> 0
                     then bind_err (py_getitem bins (int k - int d)) get_weighted_average_d
                     else Inr None) = Inr v"
  proof (cases "int k - int d \<ge> 0")
    case True
    then have "py_getitem bins (int k - int d) = Inr (bins ! (k - d))"
      using assms(1) by (auto simp: py_getitem_def nat_diff_distrib)
    moreover have "k - d < length bins" using assms(1) by simp
    ultimately show ?thesis using True fits[of "k - d"] by auto
  next
    case False
    then show ?thesis by simp
  qed
  have nxt: "\<exists>v. (if int k + int d < int (length bins)
                     then bind_err (py_getitem bins (int k + int d)) get_weighted_average_d
                     else Inr None) = Inr v"
  proof (cases "int k + int d < int (length bins)")
    case True
    then have "py_getitem bins (int k + int d) = Inr (bins ! (k + d))"
      by (auto simp: py_getitem_def nat_add_distrib)
    moreover have "k + d < length bins" using True by simp
    ultimately show ?thesis using True fits[of "k + d"] by auto
  next
    case False
    then show ?thesis by simp
  qed
  from prev nxt r show ?case
    by (auto simp: Let_def split: option.splits)
qed

lemma base_prediction_d_total:
  assumes "k < length bins" "list_all bin_fits_double bins" "bin_fits_double b"
  shows "\<exists>r. base_prediction_d bins k b = Inr r"
proof -
  obtain own where own: "get_weighted_average_d b = Inr own"
    using get_weighted_average_d_total[OF assms(3)] by blast
  obtain nb where nb: "neighbor_search_d bins k [1..<length bins] = Inr nb"
    using neighbor_search_d_total[OF assms(1,2)] by blast
  show ?thesis
  proof (cases own)
    case None
    then show ?thesis unfolding base_prediction_d_def own using nb by simp
  next
    case (Some v)
    then show ?thesis unfolding base_prediction_d_def own by simp
  qed
qed

lemma position_in_bin_d_total:
  assumes "bin_fits_double b"
  shows "\<exists>p. position_in_bin_d b x = Inr p"
proof -
  obtain r where r: "float_of_int (max_value b - min_value b) = Inr r"
    using float_of_int_total assms by (auto simp: bin_fits_double_def)
  obtain lo where lo: "float_of_int (min_value b) = Inr lo"
    using float_of_int_total assms by (auto simp: bin_fits_double_def)
  show ?thesis
  proof (cases "r > 0")
    case True
    then show ?thesis by (simp add: position_in_bin_d_def r lo ddiv_def)
  next
    case False
    then have "position_in_bin_d b x = Inr 0.5" by (simp add: position_in_bin_d_def r)
    then show ?thesis by (rule exI)
  qed
qed

lemma threshold_nonzero: "rnd 0.2 \<noteq> 0"
  by (simp add: rnd_def ilog2_def pow2_def round_half_even_def bit_length.simps Let_def)

lemma neighbor_weight_d_total:
  "\<exists>r. (case np of None \<Rightarrow> Inr (None, 0)
         | Some v \<Rightarrow> bind_err (ddiv a (rnd 0.2)) (\<lambda>iw. Inr (Some (f v), iw)))
       = (Inr r :: py_error + (real option \<times> real))"
  using threshold_nonzero by (cases np) (simp_all add: ddiv_def)

lemma interpolation_neighbor_d_total:
  assumes k: "k < length bins" and fits: "list_all bin_fits_double bins"
  shows "\<exists>r. interpolation_neighbor_d bins k pos tf af = Inr r"
proof (cases "pos < rnd 0.2 \<and> k > 0")
  case True
  have "k - 1 < length bins" using k by simp
  then obtain r where r: "get_weighted_average_d (bins ! (k - 1)) = Inr r"
    using get_weighted_average_d_total fits by (auto simp: list_all_length)
  have g: "py_getitem bins (int k - 1) = Inr (bins ! (k - 1))"
    using True k by (simp add: py_getitem_pred)
  have "interpolation_neighbor_d bins k pos tf af =
        (case r of None \<Rightarrow> Inr (None, 0)
         | Some v \<Rightarrow> bind_err (ddiv (dsub (rnd 0.2) pos) (rnd 0.2))
                       (\<lambda>iw. Inr (Some (dmul v (dmul tf af)), iw)))"
    unfolding interpolation_neighbor_d_def Let_def using True
    by (simp only: simp_thms if_True g bind_err_simps r)
  then show ?thesis
    using neighbor_weight_d_total[where np=r and a="dsub (rnd 0.2) pos"
        and f="\<lambda>v. dmul v (dmul tf af)"] by simp
next
  case False
  note F = False
  show ?thesis
  proof (cases "pos > dsub 1 (rnd 0.2) \<and> int k < int (length bins) - 1")
    case True
    then have "k + 1 < length bins" by simp
    then obtain r where r: "get_weighted_average_d (bins ! (k + 1)) = Inr r"
      using get_weighted_average_d_total fits by (auto simp: list_all_length)
    have g: "py_getitem bins (int k + 1) = Inr (bins ! (k + 1))"
      using True by (simp add: py_getitem_succ)
    have "interpolation_neighbor_d bins k pos tf af =
        (case r of None \<Rightarrow> Inr (None, 0)
         | Some v \<Rightarrow> bind_err (ddiv (dsub pos (dsub 1 (rnd 0.2))) (rnd 0.2))
                       (\<lambda>iw. Inr (Some (dmul v (dmul tf af)), iw)))"
      unfolding interpolation_neighbor_d_def Let_def using True F
      by (simp only: simp_thms if_True if_False g bind_err_simps r)
    then show ?thesis
      using neighbor_weight_d_total[where np=r and a="dsub pos (dsub 1 (rnd 0.2))"
          and f="\<lambda>v. dmul v (dmul tf af)"] by simp
  next
    case False
    have "interpolation_neighbor_d bins k pos tf af = Inr (None, 0)"
      unfolding interpolation_neighbor_d_def Let_def using False F
      by (simp only: simp_thms if_False)
    then show ?thesis by (rule exI)
  qed
qed

lemma adjust_and_interpolate_d_total:
  assumes "k < length bins" "list_all bin_fits_double bins" "bin_fits_double b" "lt ts = Inr h"
  shows "\<exists>r. adjust_and_interpolate_d lt bins k b x ts act mp = Inr r"
proof -
  have tf: "from_timestamp_d lt ts = Inr \<lparr>hour = h, is_day = (6 \<le> h \<and> h < 18)\<rparr>"
    by (simp add: from_timestamp_d_def assms(4))
  obtain pos where pos: "position_in_bin_d b x = Inr pos"
    using position_in_bin_d_total[OF assms(3)] by blast
  obtain np iw where nb: "interpolation_neighbor_d bins k pos
      (if is_day \<lparr>hour = h, is_day = (6 \<le> h \<and> h < 18)\<rparr> then 1 else rnd 0.8)
      (if act then 1 else rnd 0.9) = Inr (np, iw)"
    using interpolation_neighbor_d_total[OF assms(1,2)] by (metis surj_pair)
  show ?thesis
    unfolding adjust_and_interpolate_d_def tf bind_err_simps Let_def pos nb prod.case
    by (rule exI) (rule refl)
qed

lemma interpolated_prediction_d_total:
  assumes "fits_double ambient" "list_all bin_fits_double bins" "lt ts = Inr h"
  shows "\<exists>r. interpolated_prediction_d lt bins ambient ts act = Inr r"
proof -
  obtain x where x: "float_of_int ambient = Inr x"
    using float_of_int_total[OF assms(1)] by blast
  show ?thesis
  proof (cases "predict_find_bin bins 0 (length bins) x")
    case None
    then show ?thesis by (simp add: interpolated_prediction_d_def x)
  next
    case (Some kb)
    obtain k b where kb: "kb = (k, b)" by (cases kb) auto
    from predict_find_bin_Some[OF Some[unfolded kb]]
    have k: "k < length bins" and b: "b = bins ! k" by simp_all
    have bf: "bin_fits_double b" using assms(2) k b by (simp add: list_all_length)
    obtain found where found: "base_prediction_d bins k b = Inr found"
      using base_prediction_d_total[OF k assms(2) bf] by blast
    show ?thesis
    proof (cases found)
      case None
      then show ?thesis using Some kb found by (simp add: interpolated_prediction_d_def x)
    next
      case (Some mp)
      obtain v where "adjust_and_interpolate_d lt bins k b x ts act mp = Inr v"
        using adjust_and_interpolate_d_total[where lt = lt and ts = ts and h = h, OF k assms(2) bf assms(3)]
        by blast
      then show ?thesis
        using \<open>predict_find_bin bins 0 (length bins) x = Some kb\<close> kb found Some
        by (simp add: interpolated_prediction_d_def x)
    qed
  qed
qed

text \<open>Whatever \<^verbatim>\<open>predict\<close> returns in double precision is of one of two forms.\<close>

lemma predict_d_returns:
  assumes "predict_d lt m ambient ts act = Inr (r, m')"
  shows "(r = None \<and> m' = m)
       \<or> (\<exists>a s. r = Some (max 0 (min 100 s))
              \<and> m' = m\<lparr>last_predictions := deque_append (last_predictions m) a\<rparr>)"
proof -
  from assms obtain ip where ip: "interpolated_prediction_d lt (ambient_bins m) ambient ts act = Inr ip"
    by (auto simp: predict_d_def bind_err_Inr_iff)
  show ?thesis
  proof (cases ip)
    case None
    then show ?thesis using assms ip by (simp add: predict_d_def)
  next
    case (Some a)
    then show ?thesis using assms ip
      by (auto simp: predict_d_def Let_def bind_err_Inr_iff deque_append_nonempty)
  qed
qed

lemma predict_d_total:
  assumes "fits_double ambient" "list_all bin_fits_double (ambient_bins m)" "lt ts = Inr h"
  shows "\<exists>r m'. predict_d lt m ambient ts act = Inr (r, m')"
proof -
  obtain ip where ip: "interpolated_prediction_d lt (ambient_bins m) ambient ts act = Inr ip"
    using interpolated_prediction_d_total[where lt = lt and ts = ts and h = h, OF assms] by blast
  show ?thesis
  proof (cases ip)
    case None
    then show ?thesis using ip by (simp add: predict_d_def)
  next
    case (Some a)
    have "length (deque_append (last_predictions m) a) \<noteq> 0"
      using deque_append_nonempty by simp
    then show ?thesis using ip Some
      by (simp add: predict_d_def Let_def ddiv_def deque_append_nonempty)
  qed
qed

lemmas predict_d_eval =
  predict_d_def interpolated_prediction_d_def base_prediction_d_def get_weighted_average_d_def
  adjust_and_interpolate_d_def position_in_bin_d_def interpolation_neighbor_d_def
  apply_interpolation_d_def from_timestamp_d_def float_of_int_def fits_double_def
  deque_append_def dsum_def dadd_def dsub_def dmul_def ddiv_def py_getitem_def
  utc_localtime_def utc_hour_def

lemma predict_d_trained:
  "predict_d utc_localtime trained_model 10 0 True
   = Inr (Some 16, trained_model\<lparr>last_predictions := [16]\<rparr>)"
  by (simp add: predict_d_eval trained_model_def rnd_eval)

lemma trained_model_fits: "list_all bin_fits_double (ambient_bins trained_model)"
  by (simp add: trained_model_def bin_fits_double_def fits_double_def)

text \<open>
  Claim C3, as amended. Whenever \<^verbatim>\<open>predict\<close> returns a number, the number is between 0
  and 100, for every model state and every input. \<^verbatim>\<open>predict\<close> raises no exception and
  returns \<open>None\<close> or such a number when every integer it converts to a float is in the
  range of the doubles (the ambient value, and of every bin the lower bound, the width
  and the brightness of each point) and \<^verbatim>\<open>time.localtime\<close> accepts the timestamp.
  Outside these conditions it can raise \<^verbatim>\<open>OverflowError\<close>.
\<close>

theorem predict_d_in_range_or_absent:
  "(predict_d lt m ambient ts act = Inr (Some v, m1) \<longrightarrow> 0 \<le> v \<and> v \<le> 100)
   \<and> (fits_double ambient \<and> list_all bin_fits_double (ambient_bins m) \<and> lt ts = Inr h \<longrightarrow>
        (\<exists>r m'. predict_d lt m ambient ts act = Inr (r, m')
           \<and> (r = None \<or> (\<exists>v. r = Some v \<and> 0 \<le> v \<and> v \<le> 100))))"
proof (intro conjI impI)
  assume "predict_d lt m ambient ts act = Inr (Some v, m1)"
  from predict_d_returns[OF this] show "0 \<le> v" "v \<le> 100" by auto
next
  assume a: "fits_double ambient \<and> list_all bin_fits_double (ambient_bins m) \<and> lt ts = Inr h"
  then obtain r m' where r: "predict_d lt m ambient ts act = Inr (r, m')"
    using predict_d_total[where lt = lt and ts = ts and h = h and m = m and ambient = ambient]
    by blast
  from predict_d_returns[OF r] have "r = None \<or> (\<exists>v. r = Some v \<and> 0 \<le> v \<and> v \<le> 100)"
    by auto
  then show "\<exists>r m'. predict_d lt m ambient ts act = Inr (r, m')
           \<and> (r = None \<or> (\<exists>v. r = Some v \<and> 0 \<le> v \<and> v \<le> 100))"
    using r by blast
qed

theorem predict_d_in_range_or_absent_witness:
  "fits_double 10 \<and> list_all bin_fits_double (ambient_bins trained_model)
   \<and> utc_localtime 0 = Inr 0
   \<and> predict_d utc_localtime trained_model 10 0 True
       = Inr (Some 16, trained_model\<lparr>last_predictions := [16]\<rparr>)
   \<and> (0 :: real) \<le> 16 \<and> (16 :: real) \<le> 100"
  using predict_d_in_range_or_absent[where lt = utc_localtime and m = trained_model
      and ambient = 10 and ts = 0 and act = True and v = 16 and h = 0
      and ?m1.0 = "trained_model\<lparr>last_predictions := [16]\<rparr>"]
    predict_d_trained trained_model_fits
  by (simp add: fits_double_def utc_localtime_def utc_hour_def)

text \<open>
  Claim C3 as stated fails: for the ambient value \<open>10 ^ 400\<close> the first statement of
  \<^verbatim>\<open>predict\<close>, \<^verbatim>\<open>float(ambient_light)\<close>, raises \<^verbatim>\<open>OverflowError\<close>, which nothing
  handles. The same happens for an ambient value in range once a point with
  brightness \<open>10 ^ 400\<close> has been stored by \<^verbatim>\<open>train\<close>.
\<close>

theorem predict_overflow_counterexample:
  "predict_d utc_localtime trained_model (10 ^ 400) 0 True = Inl OverflowError
   \<and> train utc_hour fresh_model (manual_point 0 10 (10 ^ 400)) 0 True
       = Inr (fresh_model\<lparr>ambient_bins :=
           [\<lparr>min_value = 0, max_value = 50,
             points = [\<lparr>brightness = 10 ^ 400, weight = 1, point_timestamp = 0\<rparr>],
             total_weight = 1, max_points = 50\<rparr>,
            \<lparr>min_value = 50, max_value = 100, points = [], total_weight = 0,
             max_points = 50\<rparr>]\<rparr>)
   \<and> predict_d utc_localtime
         (fresh_model\<lparr>ambient_bins :=
           [\<lparr>min_value = 0, max_value = 50,
             points = [\<lparr>brightness = 10 ^ 400, weight = 1, point_timestamp = 0\<rparr>],
             total_weight = 1, max_points = 50\<rparr>,
            \<lparr>min_value = 50, max_value = 100, points = [], total_weight = 0,
             max_points = 50\<rparr>]\<rparr>) 10 0 True
       = Inl OverflowError"
proof -
  have a: "predict_d utc_localtime trained_model (10 ^ 400) 0 True = Inl OverflowError"
    by (simp add: predict_d_def interpolated_prediction_d_def float_of_int_def fits_double_def)
  have b: "train utc_hour fresh_model (manual_point 0 10 (10 ^ 400)) 0 True
       = Inr (fresh_model\<lparr>ambient_bins :=
           [\<lparr>min_value = 0, max_value = 50,
             points = [\<lparr>brightness = 10 ^ 400, weight = 1, point_timestamp = 0\<rparr>],
             total_weight = 1, max_points = 50\<rparr>,
            \<lparr>min_value = 50, max_value = 100, points = [], total_weight = 0,
             max_points = 50\<rparr>]\<rparr>)"
    by (simp add: train_def fresh_model_def manual_point_def find_last_point_in_bins_def
        is_outlier_def calculate_weight_def recency_weight_component_def py_truediv_def
        from_timestamp_def utc_hour_def update_def Let_def)
  have c: "predict_d utc_localtime
         (fresh_model\<lparr>ambient_bins :=
           [\<lparr>min_value = 0, max_value = 50,
             points = [\<lparr>brightness = 10 ^ 400, weight = 1, point_timestamp = 0\<rparr>],
             total_weight = 1, max_points = 50\<rparr>,
            \<lparr>min_value = 50, max_value = 100, points = [], total_weight = 0,
             max_points = 50\<rparr>]\<rparr>) 10 0 True
       = Inl OverflowError"
    by (simp add: predict_d_def interpolated_prediction_d_def base_prediction_d_def
        get_weighted_average_d_def float_of_int_def fits_double_def fresh_model_def rnd_eval)
  show ?thesis by (intro conjI a b c)
qed

end
